theory Spec2Isabelle
  imports Complex_Main "HOL-Library.AList" "HOL-Library.Multiset" "HOL-Library.Product_Lexorder"
begin

section \<open>JavaScript values used by the SDK\<close>

text \<open>
  Strings are lists of code units; the development covers the code units below 256
  (\<^typ>\<open>char\<close>). Numbers that the SDK treats as counts, identifiers, pixel
  coordinates or milliseconds are integers; \<open>NaN\<close> and fractional values are
  outside the model, \<open>Infinity\<close> is modelled where the source produces it.
\<close>

datatype json =
    JNull
  | JUndefined
  | JBool bool
  | JNum int
  | JStr string
  | JArr "json list"
  | JObj "(string \<times> json) list"

type_synonym js_object = "(string \<times> json) list"

text \<open>A thrown value, kept as the text \<open>String(e)\<close> that the SDK prints.\<close>

datatype js_error = JsError string

fun error_text :: "js_error \<Rightarrow> string" where
  "error_text (JsError s) = s"

text \<open>A number that may be \<open>Infinity\<close> (\<open>x ?? Infinity\<close>, \<open>ageMs\<close>).\<close>

datatype js_num = Fin int | PosInf

subsection \<open>Number to string\<close>

definition digit_char :: "nat \<Rightarrow> char" where
  "digit_char d = char_of (48 + d)"

function show_nat :: "nat \<Rightarrow> string" where
  "show_nat n = (if n < 10 then [digit_char n] else show_nat (n div 10) @ [digit_char (n mod 10)])"
  by pat_completeness auto
termination
  by (relation "measure id") auto

declare show_nat.simps [simp del]

definition show_int :: "int \<Rightarrow> string" where
  "show_int i = (if i < 0 then CHR ''-'' # show_nat (nat (- i)) else show_nat (nat i))"

subsection \<open>String operations\<close>

text \<open>\<open>s.includes(sub)\<close>\<close>

fun js_includes :: "string \<Rightarrow> string \<Rightarrow> bool" where
  "js_includes [] sub = (sub = [])"
| "js_includes (c # cs) sub = (take (length sub) (c # cs) = sub \<or> js_includes cs sub)"

text \<open>\<open>s.startsWith(p)\<close>\<close>

definition js_startsWith :: "string \<Rightarrow> string \<Rightarrow> bool" where
  "js_startsWith s p = (take (length p) s = p)"

text \<open>\<open>xs.join(sep)\<close>\<close>

fun js_join :: "string \<Rightarrow> string list \<Rightarrow> string" where
  "js_join sep [] = []"
| "js_join sep [x] = x"
| "js_join sep (x # y # ys) = x @ sep @ js_join sep (y # ys)"

text \<open>\<open>s.split(c)\<close> for a one-character separator: always at least one piece.\<close>

fun js_split :: "char \<Rightarrow> string \<Rightarrow> string list" where
  "js_split sep [] = [[]]"
| "js_split sep (c # cs) =
     (if c = sep then [] # js_split sep cs
      else (case js_split sep cs of
              [] \<Rightarrow> [[c]]
            | p # ps \<Rightarrow> (c # p) # ps))"

text \<open>\<open>xs.slice(0, n)\<close>: a negative \<open>n\<close> counts from the end.\<close>

definition js_slice0 :: "int \<Rightarrow> 'a list \<Rightarrow> 'a list" where
  "js_slice0 n xs = (if n < 0 then take (nat (int (length xs) + n)) xs else take (nat n) xs)"

text \<open>\<open>toLowerCase\<close> on code units below 256: A-Z and the accented capitals.\<close>

definition lower_char :: "char \<Rightarrow> char" where
  "lower_char c =
     (let n = (of_char c :: nat)
      in if (65 \<le> n \<and> n \<le> 90) \<or> (192 \<le> n \<and> n \<le> 222 \<and> n \<noteq> 215)
         then char_of (n + 32) else c)"

definition toLowerCase :: "string \<Rightarrow> string" where
  "toLowerCase s = map lower_char s"

text \<open>The class \<open>\s\<close> on code units below 256: TAB, LF, VT, FF, CR, space, NBSP.\<close>

definition is_ws :: "char \<Rightarrow> bool" where
  "is_ws c = (let n = (of_char c :: nat) in (9 \<le> n \<and> n \<le> 13) \<or> n = 32 \<or> n = 160)"

text \<open>
  \<open>s.replace(/\s+/g, ' ')\<close>: every maximal run of whitespace becomes one space. The
  flag says whether the previous code unit belonged to a run already replaced.
\<close>

fun replace_ws_runs :: "bool \<Rightarrow> string \<Rightarrow> string" where
  "replace_ws_runs in_run [] = []"
| "replace_ws_runs in_run (c # cs) =
     (if is_ws c then (if in_run then replace_ws_runs True cs
                       else CHR '' '' # replace_ws_runs True cs)
      else c # replace_ws_runs False cs)"

text \<open>\<open>s.trim()\<close>\<close>

definition js_trim :: "string \<Rightarrow> string" where
  "js_trim s = rev (dropWhile is_ws (rev (dropWhile is_ws s)))"

section \<open>Data model\<close>

record BBox =
  bbox_x :: int
  bbox_y :: int
  bbox_width :: int
  bbox_height :: int

record VisualCues =
  is_primary :: bool
  is_clickable :: bool

record Element =
  el_id :: int
  role :: string
  el_text :: "string option"
  importance :: int
  bbox :: "BBox option"
  visual_cues :: "VisualCues option"
  doc_y :: "int option"
  group_key :: "string option"
  group_index :: "int option"
  in_dominant_group :: "bool option"
  href :: "string option"

record CaptchaEvidence =
  iframe_src_hits :: "string list"
  selector_hits :: "string list"
  text_hits :: "string list"
  url_hits :: "string list"

record CaptchaDiagnostics =
  detected :: bool
  confidence :: real
  evidence :: CaptchaEvidence

record Snapshot =
  status :: string
  snap_url :: string
  elements :: "Element list"
  dominant_group_key :: "string option"
  captcha :: "CaptchaDiagnostics option"

record AssertOutcome =
  passed :: bool
  reason :: string
  details :: js_object

record AssertContext =
  snapshot :: "Snapshot option"
  ctx_url :: "string option"
  stepId :: "string option"
  downloads :: "js_object list option"

type_synonym Predicate = "AssertContext \<Rightarrow> AssertOutcome"

section \<open>Verification primitives and combinators\<close>

subsection \<open>Regular expression objects\<close>

text \<open>
  A \<open>RegExp\<close> object carries its source, its flags, the mutable \<open>lastIndex\<close> and the
  matcher compiled by the engine: \<open>matcher s i\<close> tries a match starting exactly at
  index \<open>i\<close> and gives the end index. \<open>regexp_test\<close> is
  \<open>RegExp.prototype.test\<close> (ECMAScript \<open>RegExpBuiltinExec\<close>): the search starts at
  \<open>lastIndex\<close> when the \<open>g\<close> or \<open>y\<close> flag is set and at 0 otherwise, and with one
  of these flags \<open>lastIndex\<close> is written back.
\<close>

record RegExp =
  source :: string
  flags :: string
  lastIndex :: nat
  matcher :: "string \<Rightarrow> nat \<Rightarrow> nat option"

definition is_global :: "RegExp \<Rightarrow> bool" where
  "is_global r = (CHR ''g'' \<in> set (flags r))"

definition is_sticky :: "RegExp \<Rightarrow> bool" where
  "is_sticky r = (CHR ''y'' \<in> set (flags r))"

function regexp_scan :: "RegExp \<Rightarrow> string \<Rightarrow> nat \<Rightarrow> nat option" where
  "regexp_scan r s i =
     (if i > length s then None
      else (case matcher r s i of
              Some e \<Rightarrow> Some e
            | None \<Rightarrow> (if is_sticky r then None else regexp_scan r s (i + 1))))"
  by pat_completeness auto
termination
  by (relation "measure (\<lambda>(r, s, i). length s + 1 - i)") auto

declare regexp_scan.simps [simp del]

definition regexp_test :: "RegExp \<Rightarrow> string \<Rightarrow> bool \<times> RegExp" where
  "regexp_test r s =
     (let stateful = (is_global r \<or> is_sticky r);
          start = (if stateful then lastIndex r else 0)
      in case regexp_scan r s start of
           None \<Rightarrow> (False, if stateful then r\<lparr>lastIndex := 0\<rparr> else r)
         | Some e \<Rightarrow> (True, if stateful then r\<lparr>lastIndex := e\<rparr> else r))"

text \<open>The matcher the engine compiles for a pattern made of plain characters.\<close>

definition literal_matcher :: "string \<Rightarrow> string \<Rightarrow> nat \<Rightarrow> nat option" where
  "literal_matcher lit s i =
     (if take (length lit) (drop i s) = lit then Some (i + length lit) else None)"

subsection \<open>urlMatches\<close>

text \<open>
  \<open>urlMatches(pattern)\<close> returns a closure over \<open>pattern\<close> and the \<open>RegExp\<close> object
  \<open>rx\<close>. A string pattern is compiled once (\<open>new RegExp(pattern)\<close>, which throws on a
  malformed pattern); a \<open>RegExp\<close> argument is used as it is. Calling the closure runs
  \<open>rx.test(url)\<close>, so the call returns the outcome together with the closure whose
  \<open>rx\<close> has the \<open>lastIndex\<close> left by \<open>test\<close>.
\<close>

datatype pattern = PatString string | PatRegExp RegExp

record urlMatches_closure =
  pattern_text :: string
  rx :: RegExp

definition urlMatches ::
  "(string \<Rightarrow> (string \<Rightarrow> nat \<Rightarrow> nat option) option) \<Rightarrow> pattern \<Rightarrow> js_error + urlMatches_closure" where
  "urlMatches compile pat =
     (case pat of
        PatString p \<Rightarrow>
          (case compile p of
             None \<Rightarrow> Inl (JsError ''SyntaxError: Invalid regular expression'')
           | Some m \<Rightarrow> Inr \<lparr>pattern_text = p,
                            rx = \<lparr>source = p, flags = [], lastIndex = 0, matcher = m\<rparr>\<rparr>)
      | PatRegExp r \<Rightarrow>
          Inr \<lparr>pattern_text = ''/'' @ source r @ ''/'' @ flags r, rx = r\<rparr>)"

definition urlMatches_call :: "urlMatches_closure \<Rightarrow> AssertContext \<Rightarrow> AssertOutcome \<times> urlMatches_closure" where
  "urlMatches_call cl ctx =
     (let url = (case ctx_url ctx of None \<Rightarrow> [] | Some u \<Rightarrow> u);
          (ok, rx') = regexp_test (rx cl) url
      in (\<lparr>passed = ok,
           reason = (if ok then [] else ''url did not match pattern: '' @ pattern_text cl),
           details = [(''pattern'', JStr (pattern_text cl)), (''url'', JStr (take 200 url))]\<rparr>,
          cl\<lparr>rx := rx'\<rparr>))"

subsection \<open>urlContains, allOf, anyOf, custom\<close>

definition urlContains :: "string \<Rightarrow> Predicate" where
  "urlContains substring ctx =
     (let url = (case ctx_url ctx of None \<Rightarrow> [] | Some u \<Rightarrow> u);
          ok = js_includes url substring
      in \<lparr>passed = ok,
          reason = (if ok then [] else ''url does not contain: '' @ substring),
          details = [(''substring'', JStr substring), (''url'', JStr (take 200 url))]\<rparr>)"

text \<open>
  The loop of \<open>allOf\<close>: every sub-predicate is evaluated, its details are pushed, and
  the reason of each failing one is pushed to \<open>failedReasons\<close>.
\<close>

fun allOf_loop :: "Predicate list \<Rightarrow> AssertContext \<Rightarrow> string list \<Rightarrow> js_object list
    \<Rightarrow> string list \<times> js_object list" where
  "allOf_loop [] ctx failedReasons allDetails = (failedReasons, allDetails)"
| "allOf_loop (p # ps) ctx failedReasons allDetails =
     (let outcome = p ctx
      in allOf_loop ps ctx
           (if \<not> passed outcome then failedReasons @ [reason outcome] else failedReasons)
           (allDetails @ [details outcome]))"

definition allOf :: "Predicate list \<Rightarrow> Predicate" where
  "allOf predicates ctx =
     (let (failedReasons, allDetails) = allOf_loop predicates ctx [] []
      in \<lparr>passed = (length failedReasons = 0),
          reason = js_join ''; '' failedReasons,
          details = [(''subPredicates'', JArr (map JObj allDetails)),
                     (''failedCount'', JNum (int (length failedReasons)))]\<rparr>)"

text \<open>
  The loop of \<open>anyOf\<close>, from index \<open>i\<close> on: the first passing sub-predicate returns at
  once; \<open>n\<close> is \<open>predicates.length\<close>.
\<close>

fun anyOf_loop :: "nat \<Rightarrow> Predicate list \<Rightarrow> AssertContext \<Rightarrow> nat \<Rightarrow> string list \<Rightarrow> js_object list
    \<Rightarrow> AssertOutcome" where
  "anyOf_loop n [] ctx i allReasons allDetails =
     \<lparr>passed = False,
      reason = ''none of '' @ show_nat n @ '' predicates passed: '' @ js_join ''; '' allReasons,
      details = [(''subPredicates'', JArr (map JObj allDetails))]\<rparr>"
| "anyOf_loop n (p # ps) ctx i allReasons allDetails =
     (let outcome = p ctx
      in if passed outcome
         then \<lparr>passed = True, reason = [],
               details = [(''subPredicates'', JArr (map JObj (allDetails @ [details outcome]))),
                          (''matchedAtIndex'', JNum (int i))]\<rparr>
         else anyOf_loop n ps ctx (i + 1) (allReasons @ [reason outcome])
                (allDetails @ [details outcome]))"

definition anyOf :: "Predicate list \<Rightarrow> Predicate" where
  "anyOf predicates ctx = anyOf_loop (length predicates) predicates ctx 0 [] []"

text \<open>\<open>custom(checkFn, label)\<close>: a throwing \<open>checkFn\<close> gives a failing outcome.\<close>

definition custom :: "(AssertContext \<Rightarrow> js_error + bool) \<Rightarrow> string \<Rightarrow> Predicate" where
  "custom checkFn label ctx =
     (case checkFn ctx of
        Inr ok \<Rightarrow>
          \<lparr>passed = ok,
           reason = (if ok then []
                     else ''custom check '' @ [CHR 0x27] @ label @ [CHR 0x27] @ '' returned false''),
           details = [(''label'', JStr label)]\<rparr>
      | Inl e \<Rightarrow>
          \<lparr>passed = False,
           reason = ''custom check '' @ [CHR 0x27] @ label @ [CHR 0x27] @ '' raised exception: ''
                    @ error_text e,
           details = [(''label'', JStr label), (''error'', JStr (error_text e))]\<rparr>)"

section \<open>The eventually driver\<close>

definition DEFAULT_TIMEOUT :: int where
  "DEFAULT_TIMEOUT = 10000"

definition DEFAULT_POLL :: int where
  "DEFAULT_POLL = 200"

definition DEFAULT_MAX_RETRIES :: int where
  "DEFAULT_MAX_RETRIES = 3"

record EventuallyConfig =
  config_timeout :: "int option"
  config_poll :: "int option"
  config_maxRetries :: "int option"

record RequiredEventuallyConfig =
  timeout :: int
  poll :: int
  maxRetries :: int

text \<open>The constructor of \<open>EventuallyWrapper\<close> fills the missing fields.\<close>

definition EventuallyWrapper_config :: "EventuallyConfig \<Rightarrow> RequiredEventuallyConfig" where
  "EventuallyWrapper_config config =
     \<lparr>timeout = (case config_timeout config of Some t \<Rightarrow> t | None \<Rightarrow> DEFAULT_TIMEOUT),
      poll = (case config_poll config of Some p \<Rightarrow> p | None \<Rightarrow> DEFAULT_POLL),
      maxRetries = (case config_maxRetries config of Some m \<Rightarrow> m | None \<Rightarrow> DEFAULT_MAX_RETRIES)\<rparr>"

text \<open>
  What \<open>evaluate\<close> reads from outside: \<open>clock k\<close> is the value of the \<open>k\<close>-th call of
  \<open>Date.now()\<close> during the run (counted from 0), \<open>snapshotFn k\<close> is what the \<open>k\<close>-th
  call of the refresh callback does: it throws, or resolves to a snapshot or to
  \<open>null\<close>. The predicate is called synchronously and may throw.
\<close>

record evaluate_env =
  clock :: "nat \<Rightarrow> int"
  snapshotFn :: "nat \<Rightarrow> js_error + Snapshot option"

type_synonym ThrowingPredicate = "AssertContext \<Rightarrow> js_error + AssertOutcome"

text \<open>
  The local variables of \<open>evaluate\<close>, with the number of \<open>Date.now()\<close> and
  \<open>snapshotFn\<close> calls made so far, one entry per \<open>sleep(poll)\<close> (\<open>Some e\<close> for a
  sleep entered after the check \<open>e + poll < timeout\<close> on the elapsed time \<open>e\<close>,
  \<open>None\<close> for the sleep after a failed refresh), and the outcomes assigned to
  \<open>lastOutcome\<close> at the failed attempts, oldest first.
\<close>

record evaluate_state =
  ctx :: AssertContext
  startTime :: int
  lastOutcome :: "AssertOutcome option"
  attempts :: int
  now_calls :: nat
  snapshot_calls :: nat
  sleeps :: "int option list"
  failed_attempts :: "AssertOutcome list"

text \<open>The return statement (or the throw) that ends the run.\<close>

datatype evaluate_exit =
    ReturnTimeout
  | ReturnMaxRetries
  | ReturnPassed
  | ReturnPollTimeout
  | PredicateThrew

type_synonym evaluate_result = "evaluate_exit \<times> (js_error + AssertOutcome) \<times> evaluate_state"

text \<open>
  The outcome returned at one of the two checks at the head of the loop: \<open>lastOutcome\<close>
  with the cause put before its reason, or a new failing outcome when there is none.
\<close>

definition give_up :: "string \<Rightarrow> evaluate_state \<Rightarrow> AssertOutcome" where
  "give_up cause s =
     (case lastOutcome s of
        Some lo \<Rightarrow> lo\<lparr>reason := cause @ '': '' @ reason lo\<rparr>
      | None \<Rightarrow> \<lparr>passed = False, reason = cause,
                  details = [(''attempts'', JNum (attempts s))]\<rparr>)"

text \<open>
  The refresh before every attempt but the first. The rebuilt context has the fields
  \<open>snapshot\<close>, \<open>url\<close> and \<open>stepId\<close> only.
\<close>

definition refresh :: "evaluate_env \<Rightarrow> evaluate_state \<Rightarrow> js_error + evaluate_state" where
  "refresh env s =
     (if attempts s > 0 then
        (case snapshotFn env (snapshot_calls s) of
           Inl e \<Rightarrow> Inl e
         | Inr freshSnapshot \<Rightarrow>
             Inr (s\<lparr>snapshot_calls := snapshot_calls s + 1,
                    ctx := \<lparr>snapshot = freshSnapshot,
                            ctx_url = (case freshSnapshot of
                                         Some f \<Rightarrow> Some (snap_url f)
                                       | None \<Rightarrow> ctx_url (ctx s)),
                            stepId = stepId (ctx s),
                            downloads = None\<rparr>\<rparr>))
      else Inr s)"

text \<open>The part of the loop body after a failing attempt was recorded.\<close>

definition wait_or_give_up ::
  "RequiredEventuallyConfig \<Rightarrow> evaluate_env \<Rightarrow> AssertOutcome \<Rightarrow> evaluate_state
    \<Rightarrow> evaluate_state + evaluate_result" where
  "wait_or_give_up cfg env outcome s =
     (if attempts s < maxRetries cfg then
        (let e1 = clock env (now_calls s) - startTime s;
             s1 = s\<lparr>now_calls := now_calls s + 1\<rparr>
         in if e1 + poll cfg < timeout cfg
            then Inl (s1\<lparr>sleeps := sleeps s1 @ [Some e1]\<rparr>)
            else (let e2 = clock env (now_calls s1) - startTime s1;
                      s2 = s1\<lparr>now_calls := now_calls s1 + 1\<rparr>;
                      lo = outcome\<lparr>reason := ''timeout after '' @ show_int e2 @ ''ms: ''
                                               @ reason outcome\<rparr>
                  in Inr (ReturnPollTimeout, Inr lo, s2\<lparr>lastOutcome := Some lo\<rparr>)))
      else Inl s)"

text \<open>One pass through the body of \<open>while (true)\<close>: \<open>Inl\<close> continues, \<open>Inr\<close> leaves.\<close>

definition evaluate_iter ::
  "RequiredEventuallyConfig \<Rightarrow> evaluate_env \<Rightarrow> ThrowingPredicate \<Rightarrow> evaluate_state
    \<Rightarrow> evaluate_state + evaluate_result" where
  "evaluate_iter cfg env predicate s0 =
     (let elapsed = clock env (now_calls s0) - startTime s0;
          s = s0\<lparr>now_calls := now_calls s0 + 1\<rparr>
      in if elapsed \<ge> timeout cfg then
           Inr (ReturnTimeout,
                Inr (give_up (''timeout after '' @ show_int elapsed @ ''ms'') s), s)
         else if attempts s \<ge> maxRetries cfg then
           Inr (ReturnMaxRetries,
                Inr (give_up (''max retries ('' @ show_int (maxRetries cfg) @ '') exceeded'') s), s)
         else
           (case refresh env s of
              Inl e \<Rightarrow>
                (let failure = \<lparr>passed = False,
                           reason = ''failed to take snapshot: '' @ error_text e,
                           details = [(''attempts'', JNum (attempts s)),
                                      (''error'', JStr (error_text e))]\<rparr>
                 in Inl (s\<lparr>snapshot_calls := snapshot_calls s + 1,
                          lastOutcome := Some failure,
                          failed_attempts := failed_attempts s @ [failure],
                          attempts := attempts s + 1,
                          sleeps := sleeps s @ [None]\<rparr>))
            | Inr s' \<Rightarrow>
                (case predicate (ctx s') of
                   Inl e \<Rightarrow> Inr (PredicateThrew, Inl e, s')
                 | Inr outcome \<Rightarrow>
                     if passed outcome then
                       Inr (ReturnPassed,
                            Inr (outcome\<lparr>details :=
                                   AList.update ''attempts'' (JNum (attempts s' + 1))
                                     (details outcome)\<rparr>),
                            s')
                     else
                       wait_or_give_up cfg env outcome
                         (s'\<lparr>lastOutcome := Some outcome,
                             failed_attempts := failed_attempts s' @ [outcome],
                             attempts := attempts s' + 1\<rparr>))))"

lemma evaluate_iter_continues:
  assumes "evaluate_iter cfg env predicate s = Inl s'"
  shows "attempts s < maxRetries cfg \<and> attempts s' = attempts s + 1"
  using assms
  by (auto simp: evaluate_iter_def wait_or_give_up_def refresh_def Let_def
           split: if_splits sum.splits)

function evaluate_loop ::
  "RequiredEventuallyConfig \<Rightarrow> evaluate_env \<Rightarrow> ThrowingPredicate \<Rightarrow> evaluate_state
    \<Rightarrow> evaluate_result" where
  "evaluate_loop cfg env predicate s =
     (case evaluate_iter cfg env predicate s of
        Inl s' \<Rightarrow> evaluate_loop cfg env predicate s'
      | Inr r \<Rightarrow> r)"
  by pat_completeness auto
termination
  by (relation "measure (\<lambda>(cfg, env, predicate, s). nat (maxRetries cfg - attempts s))")
     (auto dest: evaluate_iter_continues)

declare evaluate_loop.simps [simp del]

text \<open>
  \<open>evaluate(ctx, snapshotFn)\<close>: \<open>startTime\<close> is the first clock reading, there is no
  last outcome and no attempt yet.
\<close>

definition initial_state :: "evaluate_env \<Rightarrow> AssertContext \<Rightarrow> evaluate_state" where
  "initial_state env ctx0 =
     \<lparr>ctx = ctx0, startTime = clock env 0, lastOutcome = None, attempts = 0,
      now_calls = 1, snapshot_calls = 0, sleeps = [], failed_attempts = []\<rparr>"

definition evaluate ::
  "RequiredEventuallyConfig \<Rightarrow> evaluate_env \<Rightarrow> ThrowingPredicate \<Rightarrow> AssertContext
    \<Rightarrow> evaluate_result" where
  "evaluate cfg env predicate ctx0 = evaluate_loop cfg env predicate (initial_state env ctx0)"

section \<open>The snapshot cache\<close>

record SnapshotFilter =
  filter_clickable :: "bool option"
  filter_visible :: "bool option"
  filter_inViewport :: "bool option"

record SnapshotOptions =
  limit :: "int option"
  screenshot :: "bool option"
  snapshot_filter :: "SnapshotFilter option"
  showOverlay :: "bool option"
  goal :: "string option"

text \<open>
  The fields of a \<open>CachedSnapshot\<close> object. The backend is not a field here: the call
  \<open>snapshot(this.backend, options)\<close> is the parameter \<open>take\<close> of \<open>get\<close>, a function
  from the options passed to the thrown error or the snapshot returned.
\<close>

record CachedSnapshot =
  maxAgeMs :: int
  defaultOptions :: "SnapshotOptions option"
  cached :: "Snapshot option"
  cachedAt :: int
  cachedUrl :: "string option"

definition CachedSnapshot_new :: "int \<Rightarrow> SnapshotOptions option \<Rightarrow> CachedSnapshot" where
  "CachedSnapshot_new max_age options =
     \<lparr>maxAgeMs = max_age, defaultOptions = options, cached = None, cachedAt = 0,
      cachedUrl = None\<rparr>"

text \<open>\<open>isStale()\<close>, with the value \<open>now\<close> of \<open>Date.now()\<close>.\<close>

definition isStale :: "CachedSnapshot \<Rightarrow> int \<Rightarrow> bool" where
  "isStale c now =
     (case cached c of
        None \<Rightarrow> True
      | Some _ \<Rightarrow> (let ageMs = now - cachedAt c in if ageMs > maxAgeMs c then True else False))"

text \<open>
  What a call of \<open>get\<close> leaves behind: the value returned (\<open>this.cached\<close>, which may
  be \<open>null\<close> for the type) or the error thrown, the object's fields, and the arguments
  of the backend calls it made.
\<close>

record get_result =
  returned :: "js_error + Snapshot option"
  cache_after :: CachedSnapshot
  backend_calls :: "SnapshotOptions option list"

text \<open>
  \<open>get(options, forceRefresh)\<close>. \<open>now1\<close> is the clock read by \<open>isStale\<close>, \<open>now2\<close> the
  clock read after the backend call. A backend call that throws leaves the fields as
  they were.
\<close>

definition get ::
  "(SnapshotOptions option \<Rightarrow> js_error + Snapshot) \<Rightarrow> int \<Rightarrow> int \<Rightarrow> CachedSnapshot
    \<Rightarrow> SnapshotOptions option \<Rightarrow> bool \<Rightarrow> get_result" where
  "get backend_snapshot now1 now2 c options forceRefresh =
     (if forceRefresh \<or> isStale c now1 then
        (let opts = (case options of Some o' \<Rightarrow> Some o' | None \<Rightarrow> defaultOptions c)
         in case backend_snapshot opts of
              Inl e \<Rightarrow> \<lparr>returned = Inl e, cache_after = c, backend_calls = [opts]\<rparr>
            | Inr fresh \<Rightarrow>
                (let c' = c\<lparr>cached := Some fresh, cachedAt := now2,
                              cachedUrl := Some (snap_url fresh)\<rparr>
                 in \<lparr>returned = Inr (cached c'), cache_after = c', backend_calls = [opts]\<rparr>))
      else \<lparr>returned = Inr (cached c), cache_after = c, backend_calls = []\<rparr>)"

definition invalidate :: "CachedSnapshot \<Rightarrow> CachedSnapshot" where
  "invalidate c = c\<lparr>cached := None, cachedAt := 0, cachedUrl := None\<rparr>"

definition isCached :: "CachedSnapshot \<Rightarrow> bool" where
  "isCached c = (cached c \<noteq> None)"

definition ageMs :: "CachedSnapshot \<Rightarrow> int \<Rightarrow> js_num" where
  "ageMs c now = (case cached c of None \<Rightarrow> PosInf | Some _ \<Rightarrow> Fin (now - cachedAt c))"

section \<open>The compact prompt of SentienceContext\<close>

definition INTERACTIVE_ROLES :: "string list" where
  "INTERACTIVE_ROLES =
     [''button'', ''link'', ''textbox'', ''searchbox'', ''combobox'', ''checkbox'', ''radio'',
      ''slider'', ''tab'', ''menuitem'', ''option'', ''switch'', ''cell'', ''a'', ''input'',
      ''select'', ''textarea'']"

record TopElementSelector =
  byImportance :: int
  fromDominantGroup :: int
  byPosition :: int

subsection \<open>Array.prototype.sort\<close>

text \<open>
  \<open>xs.sort(compareFn)\<close> is stable. It is modelled by a stable insertion sort that is
  given \<open>gt a b\<close>, the truth of \<open>compareFn(a, b) > 0\<close>; for a comparator that orders the
  elements consistently this is the array every engine produces.
\<close>

fun insort_by :: "('a \<Rightarrow> 'a \<Rightarrow> bool) \<Rightarrow> 'a \<Rightarrow> 'a list \<Rightarrow> 'a list" where
  "insort_by gt a [] = [a]"
| "insort_by gt a (b # bs) = (if gt a b then b # insort_by gt a bs else a # b # bs)"

definition js_sort :: "('a \<Rightarrow> 'a \<Rightarrow> bool) \<Rightarrow> 'a list \<Rightarrow> 'a list" where
  "js_sort gt xs = foldr (insort_by gt) xs []"

text \<open>
  The difference of two numbers that may be \<open>Infinity\<close>, and whether a comparator
  result counts as positive (\<open>sort\<close> reads \<open>NaN\<close> as 0).
\<close>

datatype js_diff = Diff int | PlusInfinity | MinusInfinity | NaN

fun js_minus :: "js_num \<Rightarrow> js_num \<Rightarrow> js_diff" where
  "js_minus (Fin a) (Fin b) = Diff (a - b)"
| "js_minus (Fin a) PosInf = MinusInfinity"
| "js_minus PosInf (Fin b) = PlusInfinity"
| "js_minus PosInf PosInf = NaN"

fun is_positive :: "js_diff \<Rightarrow> bool" where
  "is_positive (Diff d) = (d > 0)"
| "is_positive PlusInfinity = True"
| "is_positive MinusInfinity = False"
| "is_positive NaN = False"

definition or_infinity :: "int option \<Rightarrow> js_num" where
  "or_infinity v = (case v of Some n \<Rightarrow> Fin n | None \<Rightarrow> PosInf)"

text \<open>\<open>(a, b) => (b.importance || 0) - (a.importance || 0)\<close>\<close>

definition importance_cmp :: "Element \<Rightarrow> Element \<Rightarrow> js_diff" where
  "importance_cmp a b = Diff (importance b - importance a)"

text \<open>\<open>(a, b) => (a.group_index ?? 999) - (b.group_index ?? 999)\<close>\<close>

definition group_index_cmp :: "Element \<Rightarrow> Element \<Rightarrow> js_diff" where
  "group_index_cmp a b =
     Diff ((case group_index a of Some i \<Rightarrow> i | None \<Rightarrow> 999)
           - (case group_index b of Some i \<Rightarrow> i | None \<Rightarrow> 999))"

definition getYPosition :: "Element \<Rightarrow> js_num" where
  "getYPosition el =
     (case doc_y el of
        Some d \<Rightarrow> Fin d
      | None \<Rightarrow> (case bbox el of Some b \<Rightarrow> Fin (bbox_y b) | None \<Rightarrow> PosInf))"

text \<open>The comparator of \<open>elementsByPosition\<close>: \<open>yDiff\<close>, or the importance when it is 0.\<close>

definition position_cmp :: "Element \<Rightarrow> Element \<Rightarrow> js_diff" where
  "position_cmp a b =
     (let yDiff = js_minus (getYPosition a) (getYPosition b)
      in if yDiff \<noteq> Diff 0 then yDiff else importance_cmp a b)"

text \<open>The comparator of \<open>dgElementsForRank\<close>: \<open>(doc_y, bbox.y, bbox.x, -importance)\<close>.\<close>

definition rank_cmp :: "Element \<Rightarrow> Element \<Rightarrow> js_diff" where
  "rank_cmp a b =
     (let docYA = or_infinity (doc_y a); docYB = or_infinity (doc_y b);
          bboxYA = or_infinity (map_option bbox_y (bbox a));
          bboxYB = or_infinity (map_option bbox_y (bbox b));
          bboxXA = or_infinity (map_option bbox_x (bbox a));
          bboxXB = or_infinity (map_option bbox_x (bbox b))
      in if docYA \<noteq> docYB then js_minus docYA docYB
         else if bboxYA \<noteq> bboxYB then js_minus bboxYA bboxYB
         else if bboxXA \<noteq> bboxXB then js_minus bboxXA bboxXB
         else importance_cmp a b)"

definition sort_with :: "('a \<Rightarrow> 'a \<Rightarrow> js_diff) \<Rightarrow> 'a list \<Rightarrow> 'a list" where
  "sort_with compareFn xs = js_sort (\<lambda>a b. is_positive (compareFn a b)) xs"

subsection \<open>Selection\<close>

definition truthy :: "string option \<Rightarrow> bool" where
  "truthy v = (case v of None \<Rightarrow> False | Some t \<Rightarrow> t \<noteq> [])"

text \<open>The interactive elements, sorted in place by importance.\<close>

definition interactiveElements :: "Snapshot \<Rightarrow> Element list" where
  "interactiveElements snap =
     sort_with importance_cmp
       (filter (\<lambda>el. toLowerCase (role el) \<in> set INTERACTIVE_ROLES) (elements snap))"

text \<open>
  The elements of the dominant group among the interactive ones: those with
  \<open>in_dominant_group === true\<close>, or, when there is none and the snapshot has a
  \<open>dominant_group_key\<close>, those with that \<open>group_key\<close>. The source computes this list
  twice with the same code, as \<open>dominantGroupElements\<close> and as \<open>dgElementsForRank\<close>.
\<close>

definition dominantGroupElements :: "Snapshot \<Rightarrow> Element list" where
  "dominantGroupElements snap =
     (let dg = filter (\<lambda>el. in_dominant_group el = Some True) (interactiveElements snap)
      in if length dg = 0 \<and> truthy (dominant_group_key snap)
         then filter (\<lambda>el. group_key el = dominant_group_key snap) (interactiveElements snap)
         else dg)"

text \<open>
  One \<open>for\<close> loop over candidates: an element whose id is not in \<open>selectedIds\<close> is added
  to \<open>selectedIds\<close> and pushed to \<open>selectedElements\<close>.
\<close>

fun select_new :: "Element list \<Rightarrow> int list \<times> Element list \<Rightarrow> int list \<times> Element list" where
  "select_new [] sel = sel"
| "select_new (el # els) (selectedIds, selectedElements) =
     (if el_id el \<notin> set selectedIds
      then select_new els (selectedIds @ [el_id el], selectedElements @ [el])
      else select_new els (selectedIds, selectedElements))"

definition selectedElements :: "TopElementSelector \<Rightarrow> Snapshot \<Rightarrow> Element list" where
  "selectedElements selector snap =
     (let sel1 = select_new (js_slice0 (byImportance selector) (interactiveElements snap))
                   ([], []);
          sel2 = select_new (js_slice0 (fromDominantGroup selector)
                               (sort_with group_index_cmp (dominantGroupElements snap))) sel1;
          sel3 = select_new (js_slice0 (byPosition selector)
                               (sort_with position_cmp (interactiveElements snap))) sel2
      in snd sel3)"

subsection \<open>Rank in the dominant group\<close>

definition dgElementsForRank :: "Snapshot \<Rightarrow> Element list" where
  "dgElementsForRank snap = sort_with rank_cmp (dominantGroupElements snap)"

text \<open>\<open>rankInGroupMap.set(el.id, rank)\<close>\<close>

definition set_rank :: "Element \<times> nat \<Rightarrow> (int \<rightharpoonup> nat) \<Rightarrow> (int \<rightharpoonup> nat)" where
  "set_rank entry m = m(el_id (fst entry) \<mapsto> snd entry)"

text \<open>\<open>dgElementsForRank.forEach((el, rank) => rankInGroupMap.set(el.id, rank))\<close>\<close>

definition rankInGroupMap :: "Snapshot \<Rightarrow> (int \<rightharpoonup> nat)" where
  "rankInGroupMap snap =
     fold set_rank
       (zip (dgElementsForRank snap) [0..<length (dgElementsForRank snap)]) Map.empty"

subsection \<open>The fields of a line\<close>

definition line_role :: "Element \<Rightarrow> string" where
  "line_role el = (if truthy (href el) then ''link'' else if role el = [] then ''element'' else role el)"

definition line_name :: "Element \<Rightarrow> string" where
  "line_name el =
     (let name = js_trim (replace_ws_runs False (case el_text el of Some t \<Rightarrow> t | None \<Rightarrow> []))
      in if length name > 30 then take 27 name @ ''...'' else name)"

text \<open>\<open>docY ? Math.round(docY / 200) : 0\<close>, on an integer \<open>doc_y\<close>.\<close>

definition docYq :: "Element \<Rightarrow> int" where
  "docYq el =
     (let docY = (case doc_y el of Some d \<Rightarrow> d | None \<Rightarrow> 0)
      in if docY \<noteq> 0 then (docY + 100) div 200 else 0)"

definition isPrimaryFlag :: "Element \<Rightarrow> string" where
  "isPrimaryFlag el =
     (if (case visual_cues el of Some v \<Rightarrow> is_primary v | None \<Rightarrow> False) then ''1'' else ''0'')"

text \<open>\<open>inDg\<close>: the element's own flag, or the comparison of the group keys when the flag
  is missing and the snapshot has a \<open>dominant_group_key\<close>; \<open>None\<close> is \<open>undefined\<close>.\<close>

definition inDg :: "Snapshot \<Rightarrow> Element \<Rightarrow> bool option" where
  "inDg snap el =
     (if in_dominant_group el = None \<and> truthy (dominant_group_key snap)
      then Some (group_key el = dominant_group_key snap)
      else in_dominant_group el)"

definition ordVal :: "Snapshot \<Rightarrow> Element \<Rightarrow> string" where
  "ordVal snap el =
     (if inDg snap el = Some True \<and> rankInGroupMap snap (el_id el) \<noteq> None
      then show_nat (the (rankInGroupMap snap (el_id el)))
      else ''-'')"

definition dgFlag :: "Snapshot \<Rightarrow> Element \<Rightarrow> string" where
  "dgFlag snap el = (if inDg snap el = Some True then ''1'' else ''0'')"

text \<open>
  \<open>_compressHref\<close>. \<open>url_hostname\<close> stands for \<open>new URL(href).hostname\<close>: \<open>None\<close> when
  the constructor throws, which the \<open>catch\<close> turns into \<open>item\<close>.
\<close>

definition compressHref :: "(string \<Rightarrow> string option) \<Rightarrow> string option \<Rightarrow> string" where
  "compressHref url_hostname h =
     (if \<not> truthy h then []
      else
        (let href_str = the h;
             last_segment =
               (let segments = filter (\<lambda>seg. seg \<noteq> []) (js_split CHR ''/'' href_str)
                in if length segments > 0 then take 10 (last segments) else ''item'')
         in if js_startsWith href_str ''http://'' \<or> js_startsWith href_str ''https://''
            then (case url_hostname href_str of
                    None \<Rightarrow> ''item''
                  | Some hostname \<Rightarrow>
                      if hostname \<noteq> [] then
                        (let parts = js_split CHR ''.'' hostname
                         in if length parts \<ge> 2 then take 10 (parts ! (length parts - 2))
                            else take 10 hostname)
                      else last_segment)
            else last_segment))"

definition format_line :: "(string \<Rightarrow> string option) \<Rightarrow> Snapshot \<Rightarrow> Element \<Rightarrow> string" where
  "format_line url_hostname snap el =
     show_int (el_id el) @ ''|'' @ line_role el @ ''|'' @ line_name el @ ''|''
     @ show_int (importance el) @ ''|'' @ isPrimaryFlag el @ ''|'' @ show_int (docYq el) @ ''|''
     @ ordVal snap el @ ''|'' @ dgFlag snap el @ ''|'' @ compressHref url_hostname (href el)"

definition format_lines ::
  "(string \<Rightarrow> string option) \<Rightarrow> TopElementSelector \<Rightarrow> Snapshot \<Rightarrow> string list" where
  "format_lines url_hostname selector snap =
     map (format_line url_hostname snap) (selectedElements selector snap)"

definition formatSnapshotForLLM ::
  "(string \<Rightarrow> string option) \<Rightarrow> TopElementSelector \<Rightarrow> Snapshot \<Rightarrow> string" where
  "formatSnapshotForLLM url_hostname selector snap =
     js_join [CHR 0x0A] (format_lines url_hostname selector snap)"

section \<open>Captcha gating\<close>

text \<open>
  Modelled from the spec: \<open>AgentRuntime.isCaptchaDetected\<close>; the runtime's source file
  (\<open>agent-runtime.ts\<close>) is not among the sources, only its test and its configuration
  are. The spec: the runtime inspects \<open>diagnostics.captcha\<close> of the snapshot, suppresses
  passive evidence (\<open>iframe_src\<close> hits only) regardless of confidence, and gates on
  interactive evidence (\<open>text_hits\<close> or \<open>selector_hits\<close>) above \<open>minConfidence\<close>.
\<close>

definition passive_only :: "CaptchaEvidence \<Rightarrow> bool" where
  "passive_only ev =
     (iframe_src_hits ev \<noteq> [] \<and> selector_hits ev = [] \<and> text_hits ev = [] \<and> url_hits ev = [])"

definition interactive_evidence :: "CaptchaEvidence \<Rightarrow> bool" where
  "interactive_evidence ev = (text_hits ev \<noteq> [] \<or> selector_hits ev \<noteq> [])"

definition isCaptchaDetected :: "real \<Rightarrow> Snapshot \<Rightarrow> bool" where
  "isCaptchaDetected minConfidence snap =
     (case captcha snap of
        None \<Rightarrow> False
      | Some c \<Rightarrow>
          if passive_only (evidence c) then False
          else interactive_evidence (evidence c) \<and> confidence c > minConfidence)"

section \<open>Notions used by the properties\<close>

subsection \<open>Eventually driver\<close>

text \<open>The outcome of the most recent failed attempt, if any.\<close>

definition last_failure :: "evaluate_state \<Rightarrow> AssertOutcome option" where
  "last_failure s = (if failed_attempts s = [] then None else Some (last (failed_attempts s)))"

text \<open>The elapsed time computed from the \<open>k\<close>-th clock reading.\<close>

definition elapsed_at :: "evaluate_env \<Rightarrow> nat \<Rightarrow> int" where
  "elapsed_at env k = clock env k - clock env 0"

text \<open>
  What holds whenever control is at the head of the loop: \<open>attempts\<close> counts the failed
  attempts, \<open>lastOutcome\<close> is the outcome of the latest one, and all of them failed.
\<close>

definition loop_inv :: "evaluate_env \<Rightarrow> evaluate_state \<Rightarrow> bool" where
  "loop_inv env s \<longleftrightarrow>
     attempts s = int (length (failed_attempts s)) \<and>
     lastOutcome s = last_failure s \<and>
     list_all (\<lambda>outcome. \<not> passed outcome) (failed_attempts s) \<and>
     startTime s = clock env 0 \<and> 1 \<le> now_calls s"

text \<open>
  What holds when \<open>evaluate\<close> leaves, by exit. At a return from the head of the loop the
  last clock reading is the one compared with the timeout; at the return that
  anticipates the timeout the last three readings are the one at the head of the loop,
  the one of the check \<open>elapsed + poll < timeout\<close> and the one printed.
\<close>

definition exit_ok ::
  "RequiredEventuallyConfig \<Rightarrow> evaluate_env \<Rightarrow> ThrowingPredicate \<Rightarrow> evaluate_result \<Rightarrow> bool" where
  "exit_ok cfg env predicate r =
    (case r of (ex, res, s) \<Rightarrow>
     attempts s = int (length (failed_attempts s)) \<and>
     list_all (\<lambda>outcome. \<not> passed outcome) (failed_attempts s) \<and>
     (case ex of
        ReturnPassed \<Rightarrow>
          elapsed_at env (now_calls s - 1) < timeout cfg \<and> attempts s < maxRetries cfg \<and>
          (\<exists>outcome. predicate (ctx s) = Inr outcome \<and> passed outcome \<and>
             res = Inr (outcome\<lparr>details :=
                          AList.update ''attempts'' (JNum (attempts s + 1)) (details outcome)\<rparr>))
      | ReturnTimeout \<Rightarrow>
          timeout cfg \<le> elapsed_at env (now_calls s - 1) \<and> lastOutcome s = last_failure s \<and>
          res = Inr (give_up (''timeout after '' @ show_int (elapsed_at env (now_calls s - 1))
                               @ ''ms'') s)
      | ReturnMaxRetries \<Rightarrow>
          elapsed_at env (now_calls s - 1) < timeout cfg \<and> maxRetries cfg \<le> attempts s \<and>
          lastOutcome s = last_failure s \<and>
          res = Inr (give_up (''max retries ('' @ show_int (maxRetries cfg) @ '') exceeded'') s)
      | ReturnPollTimeout \<Rightarrow>
          elapsed_at env (now_calls s - 3) < timeout cfg \<and> attempts s < maxRetries cfg \<and>
          timeout cfg \<le> elapsed_at env (now_calls s - 2) + poll cfg \<and>
          (\<exists>lo. last_failure s = Some lo \<and>
             res = Inr (lo\<lparr>reason := ''timeout after ''
                                       @ show_int (elapsed_at env (now_calls s - 1)) @ ''ms: ''
                                       @ reason lo\<rparr>))
      | PredicateThrew \<Rightarrow> (\<exists>e. predicate (ctx s) = Inl e \<and> res = Inl e)))"

text \<open>The loop of \<open>evaluate\<close> cut off after \<open>n\<close> passes through its body.\<close>

fun evaluate_fuel ::
  "nat \<Rightarrow> RequiredEventuallyConfig \<Rightarrow> evaluate_env \<Rightarrow> ThrowingPredicate \<Rightarrow> evaluate_state
    \<Rightarrow> evaluate_result option" where
  "evaluate_fuel 0 cfg env predicate s = None"
| "evaluate_fuel (Suc n) cfg env predicate s =
     (case evaluate_iter cfg env predicate s of
        Inl s' \<Rightarrow> evaluate_fuel n cfg env predicate s'
      | Inr r \<Rightarrow> Some r)"

text \<open>Every sleep so far was entered after the check \<open>elapsed + poll < timeout\<close>.\<close>

definition guarded_sleeps :: "RequiredEventuallyConfig \<Rightarrow> evaluate_state \<Rightarrow> bool" where
  "guarded_sleeps cfg s =
     list_all (\<lambda>x. case x of None \<Rightarrow> False | Some e \<Rightarrow> e + poll cfg < timeout cfg) (sleeps s)"

subsection \<open>Compact prompt\<close>

text \<open>
  A whitespace-normalized text: its only whitespace is the space, and no two spaces
  follow each other.
\<close>

fun single_spaced :: "string \<Rightarrow> bool" where
  "single_spaced [] = True"
| "single_spaced [c] = (is_ws c \<longrightarrow> c = CHR '' '')"
| "single_spaced (c # d # cs) =
     ((is_ws c \<longrightarrow> c = CHR '' '') \<and> \<not> (c = CHR '' '' \<and> d = CHR '' '') \<and> single_spaced (d # cs))"

text \<open>
  The sort key \<open>(doc_y, bbox.y, bbox.x, -importance)\<close> in the lexicographic order of
  tuples; a missing coordinate (\<open>Infinity\<close>) comes after every number.
\<close>

definition num_key :: "js_num \<Rightarrow> bool \<times> int" where
  "num_key v = (case v of Fin n \<Rightarrow> (False, n) | PosInf \<Rightarrow> (True, 0))"

definition rank_key :: "Element \<Rightarrow> (bool \<times> int) \<times> (bool \<times> int) \<times> (bool \<times> int) \<times> int" where
  "rank_key el =
     (num_key (or_infinity (doc_y el)),
      num_key (or_infinity (map_option bbox_y (bbox el))),
      num_key (or_infinity (map_option bbox_x (bbox el))),
      - importance el)"

text \<open>The fields of a line, in order.\<close>

definition line_fields :: "(string \<Rightarrow> string option) \<Rightarrow> Snapshot \<Rightarrow> Element \<Rightarrow> string list" where
  "line_fields url_hostname snap el =
     [show_int (el_id el), line_role el, line_name el, show_int (importance el),
      isPrimaryFlag el, show_int (docYq el), ordVal snap el, dgFlag snap el,
      compressHref url_hostname (href el)]"

subsection \<open>Inputs of the examples\<close>

text \<open>Contexts, predicates, clocks and refresh callbacks for the eventually driver.\<close>

definition empty_context :: AssertContext where
  "empty_context = \<lparr>snapshot = None, ctx_url = None, stepId = None, downloads = None\<rparr>"

definition shop_context :: AssertContext where
  "shop_context =
     \<lparr>snapshot = None, ctx_url = Some ''http://shop/cart'', stepId = None, downloads = None\<rparr>"

definition cart_snapshot :: Snapshot where
  "cart_snapshot =
     \<lparr>status = ''success'', snap_url = ''http://shop/cart'', elements = [],
      dominant_group_key = None, captcha = None\<rparr>"

definition always_fails :: ThrowingPredicate where
  "always_fails c = Inr \<lparr>passed = False, reason = ''nope'', details = []\<rparr>"

definition always_throws :: ThrowingPredicate where
  "always_throws c = Inl (JsError ''SnapshotError: stale'')"

definition on_cart :: ThrowingPredicate where
  "on_cart c = Inr (urlContains ''/cart'' c)"

definition frozen_clock :: evaluate_env where
  "frozen_clock = \<lparr>clock = (\<lambda>k. 0), snapshotFn = (\<lambda>k. Inr None)\<rparr>"

definition slow_first_attempt :: evaluate_env where
  "slow_first_attempt =
     \<lparr>clock = (\<lambda>k. if k \<le> 1 then 0 else 5000), snapshotFn = (\<lambda>k. Inr None)\<rparr>"

definition late_start :: evaluate_env where
  "late_start = \<lparr>clock = (\<lambda>k. if k = 0 then 0 else 5), snapshotFn = (\<lambda>k. Inr None)\<rparr>"

definition cart_after_refresh :: evaluate_env where
  "cart_after_refresh =
     \<lparr>clock = (\<lambda>k. 100 * int k), snapshotFn = (\<lambda>k. Inr (Some cart_snapshot))\<rparr>"

definition refresh_fails :: evaluate_env where
  "refresh_fails =
     \<lparr>clock = (\<lambda>k. 100 * int k), snapshotFn = (\<lambda>k. Inl (JsError ''Error: target closed''))\<rparr>"

definition default_config :: RequiredEventuallyConfig where
  "default_config =
     EventuallyWrapper_config
       \<lparr>config_timeout = None, config_poll = None, config_maxRetries = None\<rparr>"

text \<open>The regular expression \<open>/cart/g\<close>.\<close>

definition cart_regexp :: RegExp where
  "cart_regexp = \<lparr>source = ''cart'', flags = ''g'', lastIndex = 0, matcher = literal_matcher ''cart''\<rparr>"

definition warm_cache :: CachedSnapshot where
  "warm_cache = \<lparr>maxAgeMs = 2000, defaultOptions = None, cached = Some cart_snapshot,
                 cachedAt = 1000, cachedUrl = Some ''http://shop/cart''\<rparr>"

definition other_snapshot :: Snapshot where
  "other_snapshot = \<lparr>status = ''success'', snap_url = ''http://shop/checkout'', elements = [],
      dominant_group_key = None, captcha = None\<rparr>"

definition larger_limit :: SnapshotOptions where
  "larger_limit = \<lparr>limit = Some 200, screenshot = None, snapshot_filter = None,
                   showOverlay = None, goal = None\<rparr>"

definition passive_badge :: CaptchaEvidence where
  "passive_badge = \<lparr>iframe_src_hits = [''https://www.google.com/recaptcha/api2/anchor?ar=1''],
                    selector_hits = [], text_hits = [], url_hits = []\<rparr>"

text \<open>Inputs of the examples: the element that the SDK's tests build by default.\<close>

definition button :: "int \<Rightarrow> Element" where
  "button i =
     \<lparr>el_id = i, role = ''button'', el_text = None, importance = 50,
      bbox = Some \<lparr>bbox_x = 0, bbox_y = 0, bbox_width = 100, bbox_height = 30\<rparr>,
      visual_cues = Some \<lparr>is_primary = False, is_clickable = True\<rparr>,
      doc_y = None, group_key = None, group_index = None, in_dominant_group = None,
      href = None\<rparr>"

definition snapshot_of :: "Element list \<Rightarrow> string option \<Rightarrow> Snapshot" where
  "snapshot_of els key =
     \<lparr>status = ''success'', snap_url = ''https://example.com'', elements = els,
      dominant_group_key = key, captcha = None\<rparr>"

definition default_selector :: TopElementSelector where
  "default_selector = \<lparr>byImportance = 60, fromDominantGroup = 15, byPosition = 10\<rparr>"

definition menu_link :: Element where
  "menu_link = (button 7)\<lparr>el_text := Some ''  Sign   in to your account and continue to checkout ''\<rparr>"

definition pipe_button :: Element where
  "pipe_button = (button 1)\<lparr>el_text := Some ''Home | About'', doc_y := Some 400,
                             in_dominant_group := Some True\<rparr>"

definition ranked_snapshot :: Snapshot where
  "ranked_snapshot = snapshot_of
     [(button 1)\<lparr>role := ''link'', el_text := Some ''Third'', importance := 70, doc_y := Some 300,
                 in_dominant_group := Some True\<rparr>,
      (button 2)\<lparr>role := ''link'', el_text := Some ''First'', importance := 80, doc_y := Some 100,
                 in_dominant_group := Some True\<rparr>,
      (button 3)\<lparr>role := ''link'', el_text := Some ''Second'', importance := 90, doc_y := Some 200,
                 in_dominant_group := Some True\<rparr>,
      (button 4)\<lparr>el_text := Some ''Not in DG'', importance := 95, doc_y := Some 50,
                 in_dominant_group := Some False\<rparr>] None"

definition mixed_snapshot :: Snapshot where
  "mixed_snapshot = snapshot_of
     [(button 1)\<lparr>in_dominant_group := Some True\<rparr>, (button 2)\<lparr>group_key := Some ''g''\<rparr>]
     (Some ''g'')"

definition excluded_snapshot :: Snapshot where
  "excluded_snapshot = snapshot_of
     [(button 1)\<lparr>in_dominant_group := Some False, group_key := Some ''g''\<rparr>] (Some ''g'')"

definition third_link :: Element where
  "third_link = (button 1)\<lparr>role := ''link'', el_text := Some ''Third'', importance := 70,
                             doc_y := Some 300, in_dominant_group := Some True\<rparr>"

definition plain_button :: Element where
  "plain_button = (button 4)\<lparr>el_text := Some ''Not in DG'', importance := 95, doc_y := Some 50,
                 in_dominant_group := Some False\<rparr>"

section \<open>Properties\<close>

subsection \<open>The loop of the eventually driver\<close>

lemma iter_inv:
  assumes "loop_inv env s" "evaluate_iter cfg env predicate s = Inl s'"
  shows "loop_inv env s'"
  using assms
  by (auto simp: evaluate_iter_def wait_or_give_up_def refresh_def Let_def loop_inv_def last_failure_def
           split: if_splits sum.splits list.splits)

lemma iter_exit:
  assumes "loop_inv env s" "evaluate_iter cfg env predicate s = Inr r"
  shows "exit_ok cfg env predicate r"
  using assms
  by (auto simp: evaluate_iter_def wait_or_give_up_def refresh_def Let_def loop_inv_def exit_ok_def elapsed_at_def last_failure_def
           split: if_splits sum.splits list.splits)

lemma loop_rule:
  assumes "I s"
    and "\<And>s s'. I s \<Longrightarrow> evaluate_iter cfg env predicate s = Inl s' \<Longrightarrow> I s'"
    and "\<And>s r. I s \<Longrightarrow> evaluate_iter cfg env predicate s = Inr r \<Longrightarrow> Q r"
  shows "Q (evaluate_loop cfg env predicate s)"
  using assms
proof (induction cfg env predicate s rule: evaluate_loop.induct)
  case (1 cfg env predicate s)
  show ?case
  proof (cases "evaluate_iter cfg env predicate s")
    case (Inl s')
    from "1.prems"(2)[OF "1.prems"(1) Inl] have "I s'" .
    from "1.IH"[OF Inl this "1.prems"(2,3)] Inl show ?thesis
      by (simp add: evaluate_loop.simps[of cfg env predicate s])
  next
    case (Inr r)
    from "1.prems"(3)[OF "1.prems"(1) Inr] Inr show ?thesis
      by (simp add: evaluate_loop.simps[of cfg env predicate s])
  qed
qed

lemma initial_inv: "loop_inv env (initial_state env ctx0)"
  by (simp add: loop_inv_def initial_state_def last_failure_def)

lemma evaluate_exit_ok: "exit_ok cfg env predicate (evaluate cfg env predicate ctx0)"
  unfolding evaluate_def
  by (rule loop_rule[where I = "loop_inv env"]) (auto intro: initial_inv iter_inv iter_exit)

lemma fuel_enough:
  "nat (maxRetries cfg - attempts s) < n \<Longrightarrow>
   evaluate_fuel n cfg env predicate s = Some (evaluate_loop cfg env predicate s)"
proof (induction n arbitrary: s)
  case 0
  then show ?case by simp
next
  case (Suc n)
  show ?case
  proof (cases "evaluate_iter cfg env predicate s")
    case (Inl s')
    from evaluate_iter_continues[OF Inl] Suc.prems
    have "nat (maxRetries cfg - attempts s') < n" by linarith
    with Suc.IH Inl show ?thesis by (simp add: evaluate_loop.simps[of cfg env predicate s])
  next
    case (Inr r)
    then show ?thesis by (simp add: evaluate_loop.simps[of cfg env predicate s])
  qed
qed

lemma iter_sleeps:
  assumes "\<forall>k. \<exists>r. snapshotFn env k = Inr r" "guarded_sleeps cfg s"
  shows "case evaluate_iter cfg env predicate s of Inl s' \<Rightarrow> guarded_sleeps cfg s' | Inr (ex, res, s') \<Rightarrow> guarded_sleeps cfg s'"
proof -
  have "snapshotFn env k \<noteq> Inl e" for k e
    using assms(1) by (metis sum.distinct(1))
  with assms(2) show ?thesis 
    by (auto simp: evaluate_iter_def wait_or_give_up_def Let_def guarded_sleeps_def refresh_def
           split: if_splits sum.splits)
qed

lemma attempts_bound_iter:
  assumes "0 \<le> attempts s \<and> attempts s \<le> max 0 (maxRetries cfg)"
  shows "case evaluate_iter cfg env predicate s of Inl s' \<Rightarrow> 0 \<le> attempts s' \<and> attempts s' \<le> max 0 (maxRetries cfg) | Inr (ex, res, s') \<Rightarrow> 0 \<le> attempts s' \<and> attempts s' \<le> max 0 (maxRetries cfg)"
  using assms
  by (auto simp: evaluate_iter_def wait_or_give_up_def Let_def refresh_def
           split: if_splits sum.splits)

lemma exit_ok_error:
  assumes "exit_ok cfg env predicate (ex, res, s)"
  shows "case res of Inl e \<Rightarrow> ex = PredicateThrew \<and> predicate (ctx s) = Inl e
                   | Inr outcome \<Rightarrow> ex \<noteq> PredicateThrew"
  using assms by (cases ex) (auto simp: exit_ok_def)

lemma evaluate_bounds:
  assumes "\<forall>k. \<exists>r. snapshotFn env k = Inr r"
  shows "case evaluate cfg env predicate c of (ex, res, s) \<Rightarrow>
           0 \<le> attempts s \<and> attempts s \<le> max 0 (maxRetries cfg) \<and> guarded_sleeps cfg s"
  unfolding evaluate_def
proof (rule loop_rule[where I = "\<lambda>s. (0 \<le> attempts s \<and> attempts s \<le> max 0 (maxRetries cfg)) \<and> guarded_sleeps cfg s"])
  show "(0 \<le> attempts (initial_state env c) \<and> attempts (initial_state env c) \<le> max 0 (maxRetries cfg)) \<and>
    guarded_sleeps cfg (initial_state env c)"
    by (simp add: initial_state_def guarded_sleeps_def)
next
  fix s s'
  assume "(0 \<le> attempts s \<and> attempts s \<le> max 0 (maxRetries cfg)) \<and> guarded_sleeps cfg s"
    and "evaluate_iter cfg env predicate s = Inl s'"
  with attempts_bound_iter[of s cfg env predicate] iter_sleeps[OF assms, of cfg s predicate]
  show "(0 \<le> attempts s' \<and> attempts s' \<le> max 0 (maxRetries cfg)) \<and> guarded_sleeps cfg s'"
    by simp
next
  fix s r
  assume "(0 \<le> attempts s \<and> attempts s \<le> max 0 (maxRetries cfg)) \<and> guarded_sleeps cfg s"
    and "evaluate_iter cfg env predicate s = Inr r"
  with attempts_bound_iter[of s cfg env predicate] iter_sleeps[OF assms, of cfg s predicate]
  show "case r of (ex, res, s) \<Rightarrow>
           0 \<le> attempts s \<and> attempts s \<le> max 0 (maxRetries cfg) \<and> guarded_sleeps cfg s"
    by (cases r) simp
qed

text \<open>
  One pass through the loop, case by case: what \<open>evaluate_iter\<close> gives at a state \<open>s\<close>
  at the head of the loop, by the elapsed time read there, the attempts made, what the
  refresh does and what the predicate answers.
\<close>

lemma loop_leaves:
  "evaluate_iter cfg env predicate s = Inr r \<Longrightarrow> evaluate_loop cfg env predicate s = r"
  by (simp add: evaluate_loop.simps[of cfg env predicate s])

lemma loop_goes_on:
  "evaluate_iter cfg env predicate s = Inl s' \<Longrightarrow>
   evaluate_loop cfg env predicate s = evaluate_loop cfg env predicate s'"
  by (simp add: evaluate_loop.simps[of cfg env predicate s])

lemma refresh_keeps:
  assumes "refresh env s = Inr s'"
  shows "attempts s' = attempts s" "startTime s' = startTime s" "now_calls s' = now_calls s"
    "lastOutcome s' = lastOutcome s" "failed_attempts s' = failed_attempts s" "sleeps s' = sleeps s"
  using assms by (auto simp: refresh_def split: if_splits sum.splits)

lemma refresh_first: "attempts s = 0 \<Longrightarrow> refresh env s = Inr s"
  by (simp add: refresh_def)

lemma iter_timeout:
  assumes "timeout cfg \<le> clock env (now_calls s) - startTime s"
  shows "evaluate_iter cfg env predicate s =
      Inr (ReturnTimeout,
           Inr (give_up (''timeout after '' @ show_int (clock env (now_calls s) - startTime s)
                          @ ''ms'') (s\<lparr>now_calls := now_calls s + 1\<rparr>)),
           s\<lparr>now_calls := now_calls s + 1\<rparr>)"
  using assms by (simp add: evaluate_iter_def Let_def)

lemma iter_max_retries:
  assumes "clock env (now_calls s) - startTime s < timeout cfg" "maxRetries cfg \<le> attempts s"
  shows "evaluate_iter cfg env predicate s =
      Inr (ReturnMaxRetries,
           Inr (give_up (''max retries ('' @ show_int (maxRetries cfg) @ '') exceeded'')
                  (s\<lparr>now_calls := now_calls s + 1\<rparr>)),
           s\<lparr>now_calls := now_calls s + 1\<rparr>)"
  using assms by (simp add: evaluate_iter_def Let_def)

lemma iter_refresh_fails:
  assumes "clock env (now_calls s) - startTime s < timeout cfg" "attempts s < maxRetries cfg"
    and "refresh env (s\<lparr>now_calls := now_calls s + 1\<rparr>) = Inl e"
  shows "evaluate_iter cfg env predicate s =
      Inl (s\<lparr>now_calls := now_calls s + 1,
              snapshot_calls := snapshot_calls s + 1,
              lastOutcome := Some \<lparr>passed = False,
                                    reason = ''failed to take snapshot: '' @ error_text e,
                                    details = [(''attempts'', JNum (attempts s)),
                                               (''error'', JStr (error_text e))]\<rparr>,
              failed_attempts := failed_attempts s @
                                   [\<lparr>passed = False,
                                     reason = ''failed to take snapshot: '' @ error_text e,
                                     details = [(''attempts'', JNum (attempts s)),
                                                (''error'', JStr (error_text e))]\<rparr>],
              attempts := attempts s + 1,
              sleeps := sleeps s @ [None]\<rparr>)"
  using assms by (simp add: evaluate_iter_def Let_def)

lemma iter_throws:
  assumes "clock env (now_calls s) - startTime s < timeout cfg" "attempts s < maxRetries cfg"
    and "refresh env (s\<lparr>now_calls := now_calls s + 1\<rparr>) = Inr s2"
    and "predicate (ctx s2) = Inl e"
  shows "evaluate_iter cfg env predicate s = Inr (PredicateThrew, Inl e, s2)"
  using assms by (simp add: evaluate_iter_def Let_def)

lemma iter_passes:
  assumes "clock env (now_calls s) - startTime s < timeout cfg" "attempts s < maxRetries cfg"
    and "refresh env (s\<lparr>now_calls := now_calls s + 1\<rparr>) = Inr s2"
    and "predicate (ctx s2) = Inr outcome" "passed outcome"
  shows "evaluate_iter cfg env predicate s =
        Inr (ReturnPassed,
             Inr (outcome\<lparr>details :=
                    AList.update ''attempts'' (JNum (attempts s + 1)) (details outcome)\<rparr>), s2)"
  using assms refresh_keeps(1)[OF assms(3)] by (simp add: evaluate_iter_def Let_def)

lemma iter_fails_last:
  assumes "clock env (now_calls s) - startTime s < timeout cfg" "attempts s < maxRetries cfg"
    and "refresh env (s\<lparr>now_calls := now_calls s + 1\<rparr>) = Inr s2"
    and "predicate (ctx s2) = Inr outcome" "\<not> passed outcome"
    and "maxRetries cfg \<le> attempts s + 1"
  shows "evaluate_iter cfg env predicate s =
        Inl (s2\<lparr>lastOutcome := Some outcome,
                failed_attempts := failed_attempts s @ [outcome],
                attempts := attempts s + 1\<rparr>)"
  using assms refresh_keeps[OF assms(3)]
  by (simp add: evaluate_iter_def wait_or_give_up_def Let_def)

lemma iter_fails_sleeps:
  assumes "clock env (now_calls s) - startTime s < timeout cfg" "attempts s < maxRetries cfg"
    and "refresh env (s\<lparr>now_calls := now_calls s + 1\<rparr>) = Inr s2"
    and "predicate (ctx s2) = Inr outcome" "\<not> passed outcome"
    and "attempts s + 1 < maxRetries cfg"
    and "clock env (now_calls s + 1) - startTime s + poll cfg < timeout cfg"
  shows "evaluate_iter cfg env predicate s =
        Inl (s2\<lparr>lastOutcome := Some outcome,
                failed_attempts := failed_attempts s @ [outcome],
                attempts := attempts s + 1,
                now_calls := now_calls s + 2,
                sleeps := sleeps s @ [Some (clock env (now_calls s + 1) - startTime s)]\<rparr>)"
  using assms refresh_keeps[OF assms(3)]
  by (simp add: evaluate_iter_def wait_or_give_up_def Let_def)

lemma iter_fails_poll_timeout:
  assumes "clock env (now_calls s) - startTime s < timeout cfg" "attempts s < maxRetries cfg"
    and "refresh env (s\<lparr>now_calls := now_calls s + 1\<rparr>) = Inr s2"
    and "predicate (ctx s2) = Inr outcome" "\<not> passed outcome"
    and "attempts s + 1 < maxRetries cfg"
    and "timeout cfg \<le> clock env (now_calls s + 1) - startTime s + poll cfg"
  shows "evaluate_iter cfg env predicate s =
        Inr (ReturnPollTimeout,
             Inr (outcome\<lparr>reason := ''timeout after ''
                     @ show_int (clock env (now_calls s + 2) - startTime s) @ ''ms: ''
                     @ reason outcome\<rparr>),
             s2\<lparr>lastOutcome := Some outcome,
                failed_attempts := failed_attempts s @ [outcome],
                attempts := attempts s + 1,
                now_calls := now_calls s + 3,
                lastOutcome := Some (outcome\<lparr>reason := ''timeout after ''
                     @ show_int (clock env (now_calls s + 2) - startTime s) @ ''ms: ''
                     @ reason outcome\<rparr>)\<rparr>)"
  using assms refresh_keeps[OF assms(3)]
  by (simp add: evaluate_iter_def wait_or_give_up_def Let_def)

subsection \<open>C1: how evaluate ends\<close>

text \<open>
  C1 (as amended). At every pass through its loop, from a state \<open>s\<close> at the head of the
  loop, \<open>EventuallyWrapper.evaluate\<close> ends at the first of these that applies, and goes
  on with one more failed attempt counted when none does:
  \<^item> the elapsed time read at the head of the loop has reached \<open>timeout\<close>: the last
    failing outcome is returned with \<open>timeout after <elapsed>ms: \<close> before its reason, or,
    when no attempt was made, a new failing outcome with the reason
    \<open>timeout after <elapsed>ms\<close> and \<open>attempts = 0\<close>;
  \<^item> \<open>attempts\<close> has reached \<open>maxRetries\<close>: likewise with
    \<open>max retries (<maxRetries>) exceeded\<close>;
  \<^item> the predicate, called on the context (refreshed at every attempt but the first),
    throws: the error leaves \<open>evaluate\<close>;
  \<^item> the predicate passes: its outcome is returned with \<open>details.attempts\<close> set to the
    failed attempts plus one, so 1 when the first attempt passes;
  \<^item> the predicate fails, retries are left and \<open>elapsed + poll\<close> would not stay below
    \<open>timeout\<close>: the failing outcome is returned at once with
    \<open>timeout after <elapsed>ms: \<close> before its reason, without waiting for the timeout.

  A refresh that throws counts as a failed attempt. The first conjunct is the converse,
  for the whole run: at each of the five exits the condition of that exit holds, and
  \<open>attempts\<close> is the number of failed attempts so far, all of which failed. The next
  three are the first pass of the run: a predicate that passes on the given context
  returns with \<open>attempts = 1\<close>, and the run ends without an attempt when the first
  elapsed time read has reached \<open>timeout\<close> or \<open>maxRetries\<close> is not positive.
\<close>

theorem evaluate_exits:
  "(case evaluate cfg env predicate ctx0 of (ex, res, s) \<Rightarrow>
     attempts s = int (length (failed_attempts s)) \<and>
     list_all (\<lambda>outcome. \<not> passed outcome) (failed_attempts s) \<and>
     (case ex of
        ReturnPassed \<Rightarrow>
          elapsed_at env (now_calls s - 1) < timeout cfg \<and> attempts s < maxRetries cfg \<and>
          1 \<le> attempts s + 1 \<and>
          (\<exists>outcome. predicate (ctx s) = Inr outcome \<and> passed outcome \<and>
             res = Inr (outcome\<lparr>details :=
                          AList.update ''attempts'' (JNum (attempts s + 1)) (details outcome)\<rparr>))
      | ReturnTimeout \<Rightarrow>
          timeout cfg \<le> elapsed_at env (now_calls s - 1) \<and> lastOutcome s = last_failure s \<and>
          res = Inr (let cause = ''timeout after ''
                                   @ show_int (elapsed_at env (now_calls s - 1)) @ ''ms''
                     in case last_failure s of
                          Some lo \<Rightarrow> lo\<lparr>reason := cause @ '': '' @ reason lo\<rparr>
                        | None \<Rightarrow> \<lparr>passed = False, reason = cause,
                                    details = [(''attempts'', JNum 0)]\<rparr>)
      | ReturnMaxRetries \<Rightarrow>
          elapsed_at env (now_calls s - 1) < timeout cfg \<and> maxRetries cfg \<le> attempts s \<and>
          lastOutcome s = last_failure s \<and>
          res = Inr (let cause = ''max retries ('' @ show_int (maxRetries cfg) @ '') exceeded''
                     in case last_failure s of
                          Some lo \<Rightarrow> lo\<lparr>reason := cause @ '': '' @ reason lo\<rparr>
                        | None \<Rightarrow> \<lparr>passed = False, reason = cause,
                                    details = [(''attempts'', JNum 0)]\<rparr>)
      | ReturnPollTimeout \<Rightarrow>
          elapsed_at env (now_calls s - 3) < timeout cfg \<and> attempts s < maxRetries cfg \<and>
          timeout cfg \<le> elapsed_at env (now_calls s - 2) + poll cfg \<and>
          (\<exists>lo. last_failure s = Some lo \<and>
             res = Inr (lo\<lparr>reason := ''timeout after ''
                                       @ show_int (elapsed_at env (now_calls s - 1)) @ ''ms: ''
                                       @ reason lo\<rparr>))
      | PredicateThrew \<Rightarrow> (\<exists>e. predicate (ctx s) = Inl e \<and> res = Inl e))) \<and>
   (\<forall>outcome. elapsed_at env 1 < timeout cfg \<and> 0 < maxRetries cfg \<and>
       predicate ctx0 = Inr outcome \<and> passed outcome \<longrightarrow>
       evaluate cfg env predicate ctx0 =
         (ReturnPassed,
          Inr (outcome\<lparr>details := AList.update ''attempts'' (JNum 1) (details outcome)\<rparr>),
          (initial_state env ctx0)\<lparr>now_calls := 2\<rparr>)) \<and>
   (timeout cfg \<le> elapsed_at env 1 \<longrightarrow>
       evaluate cfg env predicate ctx0 =
         (ReturnTimeout,
          Inr \<lparr>passed = False,
               reason = ''timeout after '' @ show_int (elapsed_at env 1) @ ''ms'',
               details = [(''attempts'', JNum 0)]\<rparr>,
          (initial_state env ctx0)\<lparr>now_calls := 2\<rparr>)) \<and>
   (elapsed_at env 1 < timeout cfg \<and> maxRetries cfg \<le> 0 \<longrightarrow>
       evaluate cfg env predicate ctx0 =
         (ReturnMaxRetries,
          Inr \<lparr>passed = False,
               reason = ''max retries ('' @ show_int (maxRetries cfg) @ '') exceeded'',
               details = [(''attempts'', JNum 0)]\<rparr>,
          (initial_state env ctx0)\<lparr>now_calls := 2\<rparr>)) \<and>
   (\<forall>s. let elapsed = clock env (now_calls s) - startTime s;
            s1 = s\<lparr>now_calls := now_calls s + 1\<rparr>;
            given_up = (\<lambda>cause. case lastOutcome s of
                          Some lo \<Rightarrow> lo\<lparr>reason := cause @ '': '' @ reason lo\<rparr>
                        | None \<Rightarrow> \<lparr>passed = False, reason = cause,
                                    details = [(''attempts'', JNum (attempts s))]\<rparr>)
        in (timeout cfg \<le> elapsed \<longrightarrow>
              evaluate_loop cfg env predicate s =
                (ReturnTimeout,
                 Inr (given_up (''timeout after '' @ show_int elapsed @ ''ms'')), s1)) \<and>
           (elapsed < timeout cfg \<and> maxRetries cfg \<le> attempts s \<longrightarrow>
              evaluate_loop cfg env predicate s =
                (ReturnMaxRetries,
                 Inr (given_up (''max retries ('' @ show_int (maxRetries cfg) @ '') exceeded'')),
                 s1)) \<and>
           (elapsed < timeout cfg \<and> attempts s < maxRetries cfg \<longrightarrow>
              (\<forall>e. refresh env s1 = Inl e \<longrightarrow>
                 (let failure = \<lparr>passed = False,
                                 reason = ''failed to take snapshot: '' @ error_text e,
                                 details = [(''attempts'', JNum (attempts s)),
                                            (''error'', JStr (error_text e))]\<rparr>
                  in evaluate_loop cfg env predicate s =
                       evaluate_loop cfg env predicate
                         (s1\<lparr>snapshot_calls := snapshot_calls s + 1,
                             lastOutcome := Some failure,
                             failed_attempts := failed_attempts s @ [failure],
                             attempts := attempts s + 1,
                             sleeps := sleeps s @ [None]\<rparr>))) \<and>
              (\<forall>s2. refresh env s1 = Inr s2 \<longrightarrow>
                 (\<forall>e. predicate (ctx s2) = Inl e \<longrightarrow>
                    evaluate_loop cfg env predicate s = (PredicateThrew, Inl e, s2)) \<and>
                 (\<forall>outcome. predicate (ctx s2) = Inr outcome \<and> passed outcome \<longrightarrow>
                    evaluate_loop cfg env predicate s =
                      (ReturnPassed,
                       Inr (outcome\<lparr>details :=
                              AList.update ''attempts'' (JNum (attempts s + 1)) (details outcome)\<rparr>),
                       s2)) \<and>
                 (\<forall>outcome. predicate (ctx s2) = Inr outcome \<and> \<not> passed outcome \<longrightarrow>
                    (let s3 = s2\<lparr>lastOutcome := Some outcome,
                                  failed_attempts := failed_attempts s @ [outcome],
                                  attempts := attempts s + 1\<rparr>;
                         e1 = clock env (now_calls s + 1) - startTime s;
                         e2 = clock env (now_calls s + 2) - startTime s;
                         lo = outcome\<lparr>reason := ''timeout after '' @ show_int e2 @ ''ms: ''
                                                  @ reason outcome\<rparr>
                     in (maxRetries cfg \<le> attempts s + 1 \<longrightarrow>
                           evaluate_loop cfg env predicate s = evaluate_loop cfg env predicate s3) \<and>
                        (attempts s + 1 < maxRetries cfg \<and> e1 + poll cfg < timeout cfg \<longrightarrow>
                           evaluate_loop cfg env predicate s =
                             evaluate_loop cfg env predicate
                               (s3\<lparr>now_calls := now_calls s + 2,
                                   sleeps := sleeps s @ [Some e1]\<rparr>)) \<and>
                        (attempts s + 1 < maxRetries cfg \<and> timeout cfg \<le> e1 + poll cfg \<longrightarrow>
                           evaluate_loop cfg env predicate s =
                             (ReturnPollTimeout, Inr lo,
                              s3\<lparr>now_calls := now_calls s + 3, lastOutcome := Some lo\<rparr>)))))))"
  (is "?post \<and> ?first \<and> ?late \<and> ?none \<and> ?loop")
proof (intro conjI)
  obtain ex res s where r: "evaluate cfg env predicate ctx0 = (ex, res, s)"
    by (cases "evaluate cfg env predicate ctx0") auto
  from evaluate_exit_ok[of cfg env predicate ctx0] r
  have ok: "exit_ok cfg env predicate (ex, res, s)" by simp
  then have "attempts s = int (length (failed_attempts s))"
    by (simp add: exit_ok_def)
  then have "0 \<le> attempts s" by simp
  with ok show ?post
    unfolding r by (cases ex) (auto simp: exit_ok_def give_up_def Let_def last_failure_def)
next
  let ?s = "initial_state env ctx0"
  have i: "now_calls ?s = 1" "startTime ?s = clock env 0" "attempts ?s = 0" "ctx ?s = ctx0"
    "lastOutcome ?s = None" "?s\<lparr>now_calls := now_calls ?s + 1\<rparr> = ?s\<lparr>now_calls := 2\<rparr>"
    by (simp_all add: initial_state_def)
  have rf: "refresh env (?s\<lparr>now_calls := now_calls ?s + 1\<rparr>) = Inr (?s\<lparr>now_calls := 2\<rparr>)"
    by (simp add: refresh_def initial_state_def)
  show ?first
  proof (intro allI impI, elim conjE)
    fix outcome
    assume a: "elapsed_at env 1 < timeout cfg" "0 < maxRetries cfg"
      "predicate ctx0 = Inr outcome" "passed outcome"
    have "evaluate_iter cfg env predicate ?s =
        Inr (ReturnPassed,
             Inr (outcome\<lparr>details :=
                    AList.update ''attempts'' (JNum (attempts ?s + 1)) (details outcome)\<rparr>),
             ?s\<lparr>now_calls := 2\<rparr>)"
      using a by (intro iter_passes[OF _ _ rf]) (simp_all add: i elapsed_at_def)
    from loop_leaves[OF this] show "evaluate cfg env predicate ctx0 =
         (ReturnPassed,
          Inr (outcome\<lparr>details := AList.update ''attempts'' (JNum 1) (details outcome)\<rparr>),
          ?s\<lparr>now_calls := 2\<rparr>)"
      by (simp add: evaluate_def i)
  qed
  show ?late
  proof
    assume "timeout cfg \<le> elapsed_at env 1"
    then have "timeout cfg \<le> clock env (now_calls ?s) - startTime ?s"
      by (simp add: i elapsed_at_def)
    from loop_leaves[OF iter_timeout[OF this]] show "evaluate cfg env predicate ctx0 =
         (ReturnTimeout,
          Inr \<lparr>passed = False,
               reason = ''timeout after '' @ show_int (elapsed_at env 1) @ ''ms'',
               details = [(''attempts'', JNum 0)]\<rparr>,
          ?s\<lparr>now_calls := 2\<rparr>)"
      by (simp add: evaluate_def i give_up_def elapsed_at_def)
  qed
  show ?none
  proof (intro impI, elim conjE)
    assume "elapsed_at env 1 < timeout cfg" "maxRetries cfg \<le> 0"
    then have "clock env (now_calls ?s) - startTime ?s < timeout cfg" "maxRetries cfg \<le> attempts ?s"
      by (simp_all add: i elapsed_at_def)
    from loop_leaves[OF iter_max_retries[OF this]] show "evaluate cfg env predicate ctx0 =
         (ReturnMaxRetries,
          Inr \<lparr>passed = False,
               reason = ''max retries ('' @ show_int (maxRetries cfg) @ '') exceeded'',
               details = [(''attempts'', JNum 0)]\<rparr>,
          ?s\<lparr>now_calls := 2\<rparr>)"
      by (simp add: evaluate_def i give_up_def)
  qed
next
  show ?loop
    unfolding Let_def
    by (intro conjI impI allI; (elim conjE)?)
       (simp_all add: give_up_def loop_leaves[OF iter_timeout] loop_leaves[OF iter_max_retries]
          loop_leaves[OF iter_throws] loop_leaves[OF iter_passes]
          loop_goes_on[OF iter_fails_last] loop_goes_on[OF iter_fails_sleeps]
          loop_leaves[OF iter_fails_poll_timeout] loop_goes_on[OF iter_refresh_fails]
          split: option.splits)
qed


text \<open>
  Three instances. The predicate \<open>urlContains('/cart')\<close> passes at once on a context
  whose URL is \<open>http://shop/cart\<close>: the outcome carries \<open>attempts = 1\<close>. It fails on
  a context without URL and passes on the refreshed one: the outcome carries
  \<open>attempts = 2\<close>. With \<open>timeout = 3\<close> and a clock that reads 0, then 5, no attempt is
  made: the outcome is new, with the reason \<open>timeout after 5ms\<close> and \<open>attempts = 0\<close>.
\<close>

theorem evaluate_exits_witness:
  "evaluate default_config frozen_clock on_cart shop_context =
     (ReturnPassed,
      Inr ((urlContains ''/cart'' shop_context)
             \<lparr>details := AList.update ''attempts'' (JNum 1)
                           (details (urlContains ''/cart'' shop_context))\<rparr>),
      (initial_state frozen_clock shop_context)\<lparr>now_calls := 2\<rparr>) \<and>
   (case evaluate default_config cart_after_refresh on_cart empty_context of (ex, res, s) \<Rightarrow>
     ex = ReturnPassed \<and> attempts s = 1 \<and> length (failed_attempts s) = 1 \<and>
     (\<exists>outcome. on_cart (ctx s) = Inr outcome \<and> passed outcome \<and>
        res = Inr (outcome\<lparr>details := AList.update ''attempts'' (JNum 2) (details outcome)\<rparr>))) \<and>
   evaluate \<lparr>timeout = 3, poll = 1, maxRetries = 3\<rparr> late_start always_fails empty_context =
     (ReturnTimeout,
      Inr \<lparr>passed = False, reason = ''timeout after 5ms'', details = [(''attempts'', JNum 0)]\<rparr>,
      (initial_state late_start empty_context)\<lparr>now_calls := 2\<rparr>)"
proof -
  have p: "elapsed_at frozen_clock 1 < timeout default_config \<and> 0 < maxRetries default_config \<and>
       on_cart shop_context = Inr (urlContains ''/cart'' shop_context) \<and>
       passed (urlContains ''/cart'' shop_context)"
    by (simp add: elapsed_at_def frozen_clock_def default_config_def EventuallyWrapper_config_def
          DEFAULT_TIMEOUT_def DEFAULT_MAX_RETRIES_def on_cart_def urlContains_def shop_context_def)
  note first = evaluate_exits[of default_config frozen_clock on_cart shop_context,
      THEN conjunct2, THEN conjunct1, rule_format, OF p]
  have h: "fst (evaluate default_config cart_after_refresh on_cart empty_context) = ReturnPassed"
    by code_simp
  have a: "attempts (snd (snd (evaluate default_config cart_after_refresh on_cart empty_context))) = 1"
    by code_simp
  from evaluate_exits[of default_config cart_after_refresh on_cart empty_context, THEN conjunct1] h a
  have second: "case evaluate default_config cart_after_refresh on_cart empty_context of (ex, res, s) \<Rightarrow>
     ex = ReturnPassed \<and> attempts s = 1 \<and> length (failed_attempts s) = 1 \<and>
     (\<exists>outcome. on_cart (ctx s) = Inr outcome \<and> passed outcome \<and>
        res = Inr (outcome\<lparr>details := AList.update ''attempts'' (JNum 2) (details outcome)\<rparr>))"
    by (auto split: prod.splits)
  have l: "timeout \<lparr>timeout = 3, poll = 1, maxRetries = 3\<rparr> \<le> elapsed_at late_start 1"
    by (simp add: elapsed_at_def late_start_def)
  have e: "show_int (elapsed_at late_start 1) = ''5''"
    by code_simp
  note late = evaluate_exits[of "\<lparr>timeout = 3, poll = 1, maxRetries = 3\<rparr>" late_start always_fails
      empty_context, THEN conjunct2, THEN conjunct2, THEN conjunct1, rule_format, OF l]
  from first second late[unfolded e] show ?thesis by simp
qed

text \<open>
  C1 as stated does not hold: with \<open>timeout = 1000\<close>, \<open>poll = 1000\<close>, \<open>maxRetries = 3\<close>,
  a clock that stays at 0 and a predicate that fails, \<open>evaluate\<close> returns after one
  attempt with \<open>timeout after 0ms: nope\<close>, although the predicate has not passed, the
  elapsed time (0) has not reached the timeout and one attempt is fewer than three.
\<close>

theorem evaluate_exits_counterexample:
  "case evaluate \<lparr>timeout = 1000, poll = 1000, maxRetries = 3\<rparr> frozen_clock always_fails empty_context
   of (ex, res, s) \<Rightarrow>
     ex = ReturnPollTimeout \<and>
     res = Inr \<lparr>passed = False, reason = ''timeout after 0ms: nope'', details = []\<rparr> \<and>
     attempts s = 1 \<and> now_calls s = 4 \<and>
     \<not> (timeout \<lparr>timeout = 1000, poll = 1000, maxRetries = 3\<rparr> \<le> elapsed_at frozen_clock 3) \<and>
     \<not> (maxRetries \<lparr>timeout = 1000, poll = 1000, maxRetries = 3\<rparr> \<le> attempts s)"
  by code_simp

subsection \<open>C2: when the cache is used\<close>

text \<open>
  C2. A call \<open>get(options, forceRefresh)\<close> makes no backend call exactly when a snapshot
  is cached, \<open>forceRefresh\<close> is false and the age of the cache is at most \<open>maxAgeMs\<close>;
  then the cached snapshot is returned and the object is unchanged. In every other case
  the backend is called once, with \<open>options\<close> or else the default options; the snapshot
  it returns is stored as the new cache, with \<open>cachedAt\<close> set to the clock and
  \<open>cachedUrl\<close> to its URL, and returned (an error it throws is passed on and leaves the
  object unchanged). With nothing cached, \<open>ageMs\<close> is \<open>Infinity\<close>.
\<close>

theorem get_returns_cached_iff:
  "(let r = get backend_snapshot now1 now2 c options forceRefresh;
        fresh_enough = (cached c \<noteq> None \<and> \<not> forceRefresh \<and> now1 - cachedAt c \<le> maxAgeMs c);
        opts = (case options of Some o' \<Rightarrow> Some o' | None \<Rightarrow> defaultOptions c)
    in (backend_calls r = [] \<longleftrightarrow> fresh_enough) \<and>
       (fresh_enough \<longrightarrow> returned r = Inr (cached c) \<and> cache_after r = c) \<and>
       (\<not> fresh_enough \<longrightarrow>
          backend_calls r = [opts] \<and>
          (case backend_snapshot opts of
             Inr fresh \<Rightarrow>
               returned r = Inr (Some fresh) \<and>
               cache_after r = c\<lparr>cached := Some fresh, cachedAt := now2,
                                  cachedUrl := Some (snap_url fresh)\<rparr>
           | Inl e \<Rightarrow> returned r = Inl e \<and> cache_after r = c))) \<and>
   (cached c = None \<longrightarrow> ageMs c now = PosInf)"
  by (auto simp: get_def isStale_def ageMs_def Let_def split: option.splits sum.splits)

text \<open>
  An instance: a snapshot cached at 1000 with \<open>maxAgeMs = 2000\<close> is returned at 2500,
  replaced at 3500, and replaced at 2500 under \<open>forceRefresh\<close>.
\<close>

theorem get_returns_cached_iff_witness:
  "get (\<lambda>opts. Inr other_snapshot) 2500 2600 warm_cache None False
     = \<lparr>returned = Inr (Some cart_snapshot), cache_after = warm_cache, backend_calls = []\<rparr> \<and>
   returned (get (\<lambda>opts. Inr other_snapshot) 3500 3600 warm_cache None False)
     = Inr (Some other_snapshot) \<and>
   cachedAt (cache_after (get (\<lambda>opts. Inr other_snapshot) 3500 3600 warm_cache None False)) = 3600 \<and>
   returned (get (\<lambda>opts. Inr other_snapshot) 2500 2600 warm_cache None True)
     = Inr (Some other_snapshot) \<and>
   ageMs (invalidate warm_cache) 2500 = PosInf"
proof -
  have f: "cached warm_cache = Some cart_snapshot" "cachedAt warm_cache = 1000"
    "maxAgeMs warm_cache = 2000" "cached (invalidate warm_cache) = None"
    by (simp_all add: warm_cache_def invalidate_def)
  from get_returns_cached_iff[of "\<lambda>opts. Inr other_snapshot" 2500 2600 warm_cache None False]
       get_returns_cached_iff[of "\<lambda>opts. Inr other_snapshot" 3500 3600 warm_cache None False]
       get_returns_cached_iff[of "\<lambda>opts. Inr other_snapshot" 2500 2600 warm_cache None True]
       get_returns_cached_iff[where c = "invalidate warm_cache" and now = 2500]
  show ?thesis
    by (simp add: f Let_def get_result.equality)
qed



subsection \<open>C3: purity of predicates\<close>

text \<open>
  C3 fails for \<open>urlMatches\<close> given a regular expression with the \<open>g\<close> flag: the
  predicate \<open>urlMatches(/cart/g)\<close>, evaluated twice on the same context with the URL
  \<open>http://shop/cart\<close>, passes the first time and fails the second time, because
  \<open>rx.test\<close> leaves \<open>lastIndex = 16\<close> in the shared \<open>RegExp\<close> object after the match.
\<close>

theorem urlMatches_global_regexp_alternates:
  "case urlMatches compile (PatRegExp cart_regexp) of
     Inl e \<Rightarrow> False
   | Inr closure \<Rightarrow>
       (let (first, closure1) = urlMatches_call closure shop_context;
            (second, closure2) = urlMatches_call closure1 shop_context
        in passed first \<and> lastIndex (rx closure1) = 16 \<and>
           second = \<lparr>passed = False, reason = ''url did not match pattern: /cart/g'',
                     details = [(''pattern'', JStr ''/cart/g''),
                                (''url'', JStr ''http://shop/cart'')]\<rparr> \<and>
           lastIndex (rx closure2) = 0)"
  by (simp add: urlMatches_def) code_simp

text \<open>
  Without the \<open>g\<close> and \<open>y\<close> flags \<open>test\<close> leaves the object as it was, so the closure
  is the same after every call; a string pattern is compiled without flags.
\<close>

lemma regexp_test_stateless:
  "\<not> is_global r \<Longrightarrow> \<not> is_sticky r \<Longrightarrow> snd (regexp_test r s) = r"
  by (simp add: regexp_test_def split: option.splits)

lemma urlMatches_call_stateless:
  assumes "\<not> is_global (rx cl)" and "\<not> is_sticky (rx cl)"
  shows "snd (urlMatches_call cl c) = cl"
proof -
  let ?u = "case ctx_url c of None \<Rightarrow> [] | Some u \<Rightarrow> u"
  obtain ok r' where t: "regexp_test (rx cl) ?u = (ok, r')"
    by (cases "regexp_test (rx cl) ?u") auto
  with regexp_test_stateless[OF assms, of ?u] have "r' = rx cl" by simp
  with t show ?thesis by (simp add: urlMatches_call_def)
qed

lemma urlMatches_string_pattern_stateless:
  "urlMatches compile (PatString p) = Inr cl \<Longrightarrow> \<not> is_global (rx cl) \<and> \<not> is_sticky (rx cl)"
  by (auto simp: urlMatches_def is_global_def is_sticky_def split: option.splits)

subsection \<open>C4: passive captcha evidence\<close>

text \<open>
  C4. A snapshot whose captcha evidence has \<open>iframe_src_hits\<close> only (no text, selector
  or URL hits) is never detected as a captcha, whatever the reported confidence, the
  \<open>detected\<close> flag and the configured \<open>minConfidence\<close> are.
\<close>

theorem passive_evidence_never_gates:
  assumes "iframe_src_hits ev \<noteq> []" and "text_hits ev = []" and "selector_hits ev = []"
    and "url_hits ev = []"
  shows "\<not> isCaptchaDetected minConfidence
            (snap\<lparr>captcha := Some \<lparr>detected = d, confidence = conf, evidence = ev\<rparr>\<rparr>)"
  using assms by (simp add: isCaptchaDetected_def passive_only_def)

text \<open>
  An instance, from the runtime's test: the recaptcha badge with confidence 0.95 against
  \<open>minConfidence = 0.1\<close> is not detected, a text hit with the same confidence is.
\<close>

theorem passive_evidence_never_gates_witness:
  "\<not> isCaptchaDetected 0.1
       (cart_snapshot\<lparr>captcha := Some \<lparr>detected = True, confidence = 0.95,
                                       evidence = passive_badge\<rparr>\<rparr>) \<and>
   isCaptchaDetected 0.1
       (cart_snapshot\<lparr>captcha := Some \<lparr>detected = True, confidence = 0.95,
            evidence = passive_badge\<lparr>iframe_src_hits := [], text_hits := [''I am not a robot'']\<rparr>\<rparr>\<rparr>)"
proof -
  have h: "iframe_src_hits passive_badge \<noteq> []" "text_hits passive_badge = []"
    "selector_hits passive_badge = []" "url_hits passive_badge = []"
    by (simp_all add: passive_badge_def)
  from passive_evidence_never_gates[OF h, where minConfidence = "0.1" and snap = cart_snapshot
         and d = True and conf = "0.95"]
  show ?thesis
    by (simp add: isCaptchaDetected_def passive_only_def interactive_evidence_def passive_badge_def)
qed



subsection \<open>C5: the format of a compact line\<close>

text \<open>
  C5 fails for an element whose text contains the delimiter: the line of a button with
  the text \<open>Home | About\<close> has nine pipe characters, not eight. The nine fields of the
  line are joined without escaping, so splitting the line at \<open>|\<close>, as the readers of
  the format \<open>ID|role|text|imp|is_primary|docYq|ord|DG|href\<close> do, gives ten parts: the
  part at index 6 is the \<open>docYq\<close> field (2) and not \<open>ord\<close> (0), the part at index 7 is
  the \<open>ord\<close> field (0) and not \<open>DG\<close> (1).
\<close>

theorem compact_line_text_with_pipe:
  "format_lines (\<lambda>h. None) default_selector (snapshot_of [pipe_button] None)
     = [''1|button|Home | About|50|0|2|0|1|''] \<and>
   line_fields (\<lambda>h. None) (snapshot_of [pipe_button] None) pipe_button
     = [''1'', ''button'', ''Home | About'', ''50'', ''0'', ''2'', ''0'', ''1'', ''''] \<and>
   count_list ''1|button|Home | About|50|0|2|0|1|'' (CHR ''|'') = 9 \<and>
   js_split (CHR ''|'') ''1|button|Home | About|50|0|2|0|1|''
     = [''1'', ''button'', ''Home '', '' About'', ''50'', ''0'', ''2'', ''0'', ''1'', ''''] \<and>
   js_split (CHR ''|'') ''1|button|Home | About|50|0|2|0|1|'' ! 6 = ''2'' \<and>
   ordVal (snapshot_of [pipe_button] None) pipe_button = ''0'' \<and>
   js_split (CHR ''|'') ''1|button|Home | About|50|0|2|0|1|'' ! 7 = ''0'' \<and>
   dgFlag (snapshot_of [pipe_button] None) pipe_button = ''1''"
  by code_simp

text \<open>
  What holds of the line of every selected element is proved next: it is the nine
  fields joined by \<open>|\<close>, it has eight pipe characters plus those that the text field
  and the href token contain, and the text field is at most 30 long and
  whitespace-normalized.
\<close>

lemma digit_char_not_pipe: "d < 10 \<Longrightarrow> digit_char d \<noteq> CHR ''|''"
proof
  assume d: "d < 10" and e: "digit_char d = CHR ''|''"
  then have "(of_char (digit_char d) :: nat) = of_char (CHR ''|'')" by simp
  with d show False by (simp add: digit_char_def)
qed

lemma show_nat_no_pipe: "CHR ''|'' \<notin> set (show_nat n)"
proof (induction n rule: show_nat.induct)
  case (1 n)
  show ?case
  proof (cases "n < 10")
    case True
    then show ?thesis using digit_char_not_pipe[of n] by (simp add: show_nat.simps[of n])
  next
    case False
    with 1 digit_char_not_pipe[of "n mod 10"] show ?thesis
      by (simp add: show_nat.simps[of n])
  qed
qed

lemma show_int_no_pipe: "CHR ''|'' \<notin> set (show_int i)"
  by (simp add: show_int_def show_nat_no_pipe)

lemma lower_char_pipe: "lower_char (CHR ''|'') = CHR ''|''"
  by (simp add: lower_char_def)

lemma interactive_role_no_pipe:
  assumes "toLowerCase r \<in> set INTERACTIVE_ROLES"
  shows "CHR ''|'' \<notin> set r"
proof
  assume "CHR ''|'' \<in> set r"
  then have "lower_char (CHR ''|'') \<in> set (toLowerCase r)"
    unfolding toLowerCase_def by (simp add: image_iff) blast
  then have "CHR ''|'' \<in> set (toLowerCase r)" by (simp add: lower_char_pipe)
  moreover have "\<forall>s \<in> set INTERACTIVE_ROLES. CHR ''|'' \<notin> set s"
    by (simp add: INTERACTIVE_ROLES_def)
  ultimately show False using assms by blast
qed

lemma set_insort_by: "set (insort_by gt a xs) = insert a (set xs)"
  by (induction xs) auto

lemma mset_insort_by: "mset (insort_by gt a xs) = add_mset a (mset xs)"
  by (induction xs) auto

lemma mset_js_sort: "mset (js_sort gt xs) = mset xs"
  by (induction xs) (auto simp: js_sort_def mset_insort_by)

lemma set_js_sort: "set (js_sort gt xs) = set xs"
  using mset_js_sort[of gt xs] by (metis set_mset_mset)

lemma set_sort_with: "set (sort_with cmp xs) = set xs"
  by (simp add: sort_with_def set_js_sort)

lemma set_js_slice0: "set (js_slice0 n xs) \<subseteq> set xs"
  by (auto simp: js_slice0_def dest: in_set_takeD)

lemma select_new_subset:
  "set (snd (select_new els sel)) \<subseteq> set els \<union> set (snd sel)"
  by (induction els sel rule: select_new.induct) auto

lemma dominantGroupElements_subset:
  "set (dominantGroupElements snap) \<subseteq> set (interactiveElements snap)"
  by (auto simp: dominantGroupElements_def Let_def)

lemma selected_interactive:
  "set (selectedElements selector snap) \<subseteq> set (interactiveElements snap)"
proof -
  let ?i = "interactiveElements snap"
  let ?s1 = "select_new (js_slice0 (byImportance selector) ?i) ([], [])"
  let ?s2 = "select_new (js_slice0 (fromDominantGroup selector)
                (sort_with group_index_cmp (dominantGroupElements snap))) ?s1"
  let ?s3 = "select_new (js_slice0 (byPosition selector) (sort_with position_cmp ?i)) ?s2"
  have 1: "set (snd ?s1) \<subseteq> set ?i"
    using select_new_subset[of "js_slice0 (byImportance selector) ?i" "([], [])"]
      set_js_slice0[of "byImportance selector" ?i] by auto
  have 2: "set (snd ?s2) \<subseteq> set ?i"
    using select_new_subset[of "js_slice0 (fromDominantGroup selector)
                (sort_with group_index_cmp (dominantGroupElements snap))" ?s1]
      set_js_slice0[of "fromDominantGroup selector" "sort_with group_index_cmp (dominantGroupElements snap)"]
      dominantGroupElements_subset[of snap] 1
    by (auto simp: set_sort_with)
  have 3: "set (snd ?s3) \<subseteq> set ?i"
    using select_new_subset[of "js_slice0 (byPosition selector) (sort_with position_cmp ?i)" ?s2]
      set_js_slice0[of "byPosition selector" "sort_with position_cmp ?i"] 2
    by (auto simp: set_sort_with)
  then show ?thesis by (simp add: selectedElements_def Let_def)
qed

lemma interactive_role:
  "el \<in> set (interactiveElements snap) \<Longrightarrow> toLowerCase (role el) \<in> set INTERACTIVE_ROLES"
  by (simp add: interactiveElements_def set_sort_with)

lemma line_role_no_pipe:
  "toLowerCase (role el) \<in> set INTERACTIVE_ROLES \<Longrightarrow> CHR ''|'' \<notin> set (line_role el)"
  using interactive_role_no_pipe[of "role el"] by (simp add: line_role_def)

lemma format_line_join:
  "format_line url_hostname snap el = js_join ''|'' (line_fields url_hostname snap el)"
  by (simp add: format_line_def line_fields_def)

lemma ordVal_no_pipe: "CHR ''|'' \<notin> set (ordVal snap el)"
  by (simp add: ordVal_def show_nat_no_pipe)

lemma count_pipes:
  assumes "toLowerCase (role el) \<in> set INTERACTIVE_ROLES"
  shows "count_list (format_line url_hostname snap el) (CHR ''|'') =
           8 + count_list (line_name el) (CHR ''|'')
             + count_list (compressHref url_hostname (href el)) (CHR ''|'')"
  using line_role_no_pipe[OF assms] show_int_no_pipe ordVal_no_pipe[of snap el]
  by (simp add: format_line_def count_list_0_iff dgFlag_def isPrimaryFlag_def)

lemma is_ws_space: "is_ws (CHR '' '')"
  by (simp add: is_ws_def)

lemma replace_ws_runs_spaced:
  "single_spaced (replace_ws_runs in_run s) \<and>
   (in_run \<longrightarrow> replace_ws_runs in_run s = [] \<or> hd (replace_ws_runs in_run s) \<noteq> CHR '' '')"
proof (induction s arbitrary: in_run)
  case Nil
  then show ?case by simp
next
  case (Cons c cs)
  show ?case
  proof (cases "is_ws c")
    case True
    show ?thesis
    proof (cases in_run)
      case True
      with \<open>is_ws c\<close> Cons[of True] show ?thesis by simp
    next
      case False
      with \<open>is_ws c\<close> Cons[of True] show ?thesis
        by (cases "replace_ws_runs True cs") (auto simp: is_ws_space)
    qed
  next
    case False
    then have "c \<noteq> CHR '' ''" using is_ws_space by auto
    with False Cons[of False] show ?thesis
      by (cases "replace_ws_runs False cs") auto
  qed
qed

lemma single_spaced_tl: "single_spaced (c # cs) \<Longrightarrow> single_spaced cs"
  by (cases cs) auto

lemma single_spaced_drop: "single_spaced s \<Longrightarrow> single_spaced (drop n s)"
proof (induction n arbitrary: s)
  case 0
  then show ?case by simp
next
  case (Suc n)
  then show ?case by (cases s) (auto dest: single_spaced_tl)
qed

lemma single_spaced_take: "single_spaced s \<Longrightarrow> single_spaced (take n s)"
proof (induction s arbitrary: n rule: single_spaced.induct)
  case 1
  then show ?case by simp
next
  case (2 c)
  then show ?case by (cases n) auto
next
  case (3 c d cs)
  show ?case
  proof (cases n)
    case 0
    then show ?thesis by simp
  next
    case (Suc m)
    show ?thesis
    proof (cases m)
      case 0
      with Suc "3.prems" show ?thesis by simp
    next
      case (Suc k)
      from "3.prems" have "single_spaced (d # cs)" by simp
      from "3.IH"[OF this, of "Suc k"] have "single_spaced (d # take k cs)" by simp
      with "3.prems" \<open>n = Suc m\<close> Suc show ?thesis by simp
    qed
  qed
qed

lemma not_ws_dot: "\<not> is_ws (CHR ''.'')"
  by (simp add: is_ws_def)

lemma single_spaced_dots: "single_spaced s \<Longrightarrow> single_spaced (s @ ''...'')"
proof (induction s rule: single_spaced.induct)
  case 1
  show ?case using not_ws_dot by simp
next
  case (2 c)
  then show ?case using not_ws_dot by simp
next
  case (3 c d cs)
  then show ?case by simp
qed

lemma js_trim_take_drop: "\<exists>i j. js_trim s = take i (drop j s)"
proof -
  define d where "d = dropWhile is_ws s"
  define k where "k = length (takeWhile is_ws (rev d))"
  have "dropWhile is_ws (rev d) = drop k (rev d)"
    unfolding k_def by (rule dropWhile_eq_drop)
  then have "rev (dropWhile is_ws (rev d)) = take (length d - k) d"
    by (simp add: rev_drop)
  moreover have "d = drop (length (takeWhile is_ws s)) s"
    unfolding d_def by (rule dropWhile_eq_drop)
  ultimately have "js_trim s = take (length d - k) (drop (length (takeWhile is_ws s)) s)"
    unfolding js_trim_def d_def by simp
  then show ?thesis by blast
qed

lemma single_spaced_trim: "single_spaced s \<Longrightarrow> single_spaced (js_trim s)"
proof -
  assume s: "single_spaced s"
  obtain i j where "js_trim s = take i (drop j s)"
    using js_trim_take_drop[of s] by blast
  with s show ?thesis by (simp add: single_spaced_take single_spaced_drop)
qed

lemma line_name_props:
  "line_name el =
     (let name = js_trim (replace_ws_runs False (case el_text el of Some t \<Rightarrow> t | None \<Rightarrow> []))
      in if length name > 30 then take 27 name @ ''...'' else name) \<and>
   length (line_name el) \<le> 30 \<and> single_spaced (line_name el)"
proof -
  let ?n = "js_trim (replace_ws_runs False (case el_text el of Some t \<Rightarrow> t | None \<Rightarrow> []))"
  have n: "single_spaced ?n"
    using replace_ws_runs_spaced[of False] by (intro single_spaced_trim) blast
  then have "single_spaced (take 27 ?n @ ''...'')"
    by (intro single_spaced_dots single_spaced_take)
  with n show ?thesis by (simp add: line_name_def Let_def)
qed

lemma compact_line_pipes:
  assumes "el \<in> set (selectedElements selector snap)"
  shows "format_line url_hostname snap el \<in> set (format_lines url_hostname selector snap) \<and>
         format_line url_hostname snap el = js_join ''|'' (line_fields url_hostname snap el) \<and>
         length (line_fields url_hostname snap el) = 9 \<and>
         count_list (format_line url_hostname snap el) (CHR ''|'') =
           8 + count_list (line_name el) (CHR ''|'')
             + count_list (compressHref url_hostname (href el)) (CHR ''|'') \<and>
         length (line_name el) \<le> 30 \<and> single_spaced (line_name el)"
proof -
  from assms selected_interactive have "el \<in> set (interactiveElements snap)" by blast
  then have r: "toLowerCase (role el) \<in> set INTERACTIVE_ROLES" by (rule interactive_role)
  have m: "format_line url_hostname snap el \<in> set (format_lines url_hostname selector snap)"
    using assms by (simp add: format_lines_def)
  have f: "length (line_fields url_hostname snap el) = 9"
    by (simp add: line_fields_def)
  show ?thesis
    using count_pipes[OF r, of url_hostname snap] line_name_props[of el] m f
      format_line_join[of url_hostname snap el]
    by blast
qed

text \<open>An instance: a button whose text has runs of spaces and 49 characters.\<close>

lemma compact_line_pipes_menu_link:
  "menu_link \<in> set (selectedElements default_selector (snapshot_of [menu_link] None)) \<and>
   format_line (\<lambda>h. None) (snapshot_of [menu_link] None) menu_link
     = ''7|button|Sign in to your account and...|50|0|0|-|0|'' \<and>
   count_list (format_line (\<lambda>h. None) (snapshot_of [menu_link] None) menu_link) (CHR ''|'') = 8 \<and>
   line_name menu_link = ''Sign in to your account and...'' \<and>
   length (line_name menu_link) = 30"
proof -
  have s: "selectedElements default_selector (snapshot_of [menu_link] None) = [menu_link]"
    by code_simp
  then have "menu_link \<in> set (selectedElements default_selector (snapshot_of [menu_link] None))"
    by simp
  note t = compact_line_pipes[OF this, of "\<lambda>h. None"]
  have n: "line_name menu_link = ''Sign in to your account and...''" by code_simp
  have h: "compressHref (\<lambda>h. None) (href menu_link) = []" by code_simp
  have l: "format_line (\<lambda>h. None) (snapshot_of [menu_link] None) menu_link
     = ''7|button|Sign in to your account and...|50|0|0|-|0|''" by code_simp
  have c: "count_list (format_line (\<lambda>h. None) (snapshot_of [menu_link] None) menu_link) (CHR ''|'')
           = 8 + count_list (line_name menu_link) (CHR ''|'')
               + count_list (compressHref (\<lambda>h. None) (href menu_link)) (CHR ''|'')"
    by (rule t[THEN conjunct2, THEN conjunct2, THEN conjunct2, THEN conjunct1])
  have "count_list (format_line (\<lambda>h. None) (snapshot_of [menu_link] None) menu_link) (CHR ''|'') = 8"
    unfolding c n h by simp
  with s n l show ?thesis by simp
qed

subsection \<open>C6: the ord field\<close>

lemma rank_cmp_key: "is_positive (rank_cmp a b) \<longleftrightarrow> rank_key b < rank_key a"
  by (auto simp: rank_cmp_def rank_key_def num_key_def or_infinity_def importance_cmp_def Let_def
        less_prod_def less_eq_prod_def
      split: option.splits)

lemma sorted_insort_by:
  assumes "\<And>a b. gt a b \<longleftrightarrow> key b < key a"
  shows "sorted (map key xs) \<Longrightarrow> sorted (map (key :: 'a \<Rightarrow> 'k :: linorder) (insort_by gt a xs))"
  using assms by (induction xs) (auto simp: set_insort_by)

lemma sorted_js_sort:
  assumes "\<And>a b. gt a b \<longleftrightarrow> key b < key a"
  shows "sorted (map (key :: 'a \<Rightarrow> 'k :: linorder) (js_sort gt xs))"
  unfolding js_sort_def
  by (induction xs) (auto intro: sorted_insort_by[OF assms])

lemma dgElementsForRank_sorted: "sorted (map rank_key (dgElementsForRank snap))"
  unfolding dgElementsForRank_def sort_with_def
  by (rule sorted_js_sort) (rule rank_cmp_key)

lemma distinct_map_js_sort: "distinct (map f (js_sort gt xs)) = distinct (map f xs)"
proof -
  have "mset (map f (js_sort gt xs)) = mset (map f xs)"
    by (simp add: mset_js_sort)
  then show ?thesis by (rule mset_eq_imp_distinct_iff)
qed

lemma interactive_subset: "set (interactiveElements snap) \<subseteq> set (elements snap)"
  by (auto simp: interactiveElements_def set_sort_with)

lemma distinct_interactive:
  "distinct (map el_id (elements snap)) \<Longrightarrow> distinct (map el_id (interactiveElements snap))"
  by (simp add: interactiveElements_def sort_with_def distinct_map_js_sort distinct_map_filter)

lemma distinct_dominant:
  "distinct (map el_id (elements snap)) \<Longrightarrow> distinct (map el_id (dominantGroupElements snap))"
  using distinct_interactive[of snap]
  by (simp add: dominantGroupElements_def Let_def distinct_map_filter)

lemma distinct_dg_rank:
  "distinct (map el_id (elements snap)) \<Longrightarrow> distinct (map el_id (dgElementsForRank snap))"
  using distinct_dominant[of snap]
  by (simp add: dgElementsForRank_def sort_with_def distinct_map_js_sort)

lemma set_dgElementsForRank: "set (dgElementsForRank snap) = set (dominantGroupElements snap)"
  by (simp add: dgElementsForRank_def set_sort_with)

lemma mset_dgElementsForRank: "mset (dgElementsForRank snap) = mset (dominantGroupElements snap)"
  by (simp add: dgElementsForRank_def sort_with_def mset_js_sort)

lemma set_rank_apply: "set_rank (e, r) m k = (if k = el_id e then Some r else m k)"
  by (simp add: set_rank_def)

lemma fold_set_absent:
  "k \<notin> el_id ` fst ` set kvs \<Longrightarrow> fold set_rank kvs m k = m k"
proof (induction kvs arbitrary: m)
  case Nil
  then show ?case by simp
next
  case (Cons kv kvs)
  obtain e r where kv: "kv = (e, r)" by (cases kv)
  from Cons.prems kv have k: "k \<noteq> el_id e" and rest: "k \<notin> el_id ` fst ` set kvs" by auto
  have "fold set_rank (kv # kvs) m k = fold set_rank kvs (set_rank kv m) k" by simp
  also have "\<dots> = set_rank kv m k" using rest by (rule Cons.IH)
  also have "\<dots> = m k" unfolding kv using k by (simp add: set_rank_apply)
  finally show ?case .
qed

lemma fold_set_present:
  "distinct (map (\<lambda>kv. el_id (fst kv)) kvs) \<Longrightarrow> (e, r) \<in> set kvs \<Longrightarrow>
   fold set_rank kvs m (el_id e) = Some r"
proof (induction kvs arbitrary: m)
  case Nil
  then show ?case by simp
next
  case (Cons kv kvs)
  show ?case
  proof (cases "(e, r) = kv")
    case True
    with Cons.prems(1) have absent: "el_id e \<notin> el_id ` fst ` set kvs" by (auto simp: image_iff)
    have "fold set_rank (kv # kvs) m (el_id e) = fold set_rank kvs (set_rank kv m) (el_id e)"
      by simp
    also have "\<dots> = set_rank kv m (el_id e)" using absent by (rule fold_set_absent)
    also have "\<dots> = Some r" unfolding True[symmetric] by (simp add: set_rank_apply)
    finally show ?thesis .
  next
    case False
    with Cons.prems have "(e, r) \<in> set kvs" "distinct (map (\<lambda>kv. el_id (fst kv)) kvs)" by auto
    from Cons.IH[OF this(2) this(1)] show ?thesis by simp
  qed
qed

lemma map_el_id_zip:
  "length xs = length ys \<Longrightarrow> map (\<lambda>kv. el_id (fst kv)) (zip xs ys) = map el_id xs"
  by (induction xs ys rule: list_induct2) auto

lemma rank_lookup:
  assumes "distinct (map el_id (dgElementsForRank snap))" and "r < length (dgElementsForRank snap)"
  shows "rankInGroupMap snap (el_id (dgElementsForRank snap ! r)) = Some r"
proof -
  let ?xs = "dgElementsForRank snap"
  let ?kvs = "zip ?xs [0..<length ?xs]"
  have "map (\<lambda>kv. el_id (fst kv)) ?kvs = map el_id ?xs"
    by (rule map_el_id_zip) simp
  with assms(1) have d: "distinct (map (\<lambda>kv. el_id (fst kv)) ?kvs)" by simp
  have "(?xs ! r, r) \<in> set ?kvs"
    using assms(2) by (auto simp: set_zip intro!: exI[of _ r])
  from fold_set_present[OF d this] show ?thesis by (simp add: rankInGroupMap_def)
qed

lemma rank_lookup_absent:
  assumes "el_id el \<notin> el_id ` set (dgElementsForRank snap)"
  shows "rankInGroupMap snap (el_id el) = None"
proof -
  let ?xs = "dgElementsForRank snap"
  have "fst ` set (zip ?xs [0..<length ?xs]) = set ?xs"
    by (metis length_upt map_fst_zip minus_nat.diff_0 set_map)
  with assms fold_set_absent[of "el_id el" "zip ?xs [0..<length ?xs]" Map.empty]
  show ?thesis by (simp add: rankInGroupMap_def)
qed

text \<open>
  C6 (as amended). Let the element ids of the snapshot be distinct. The rank population
  is computed from all interactive elements, whatever the selector: those with
  \<open>in_dominant_group === true\<close>, or, when there is none and the snapshot has a
  \<open>dominant_group_key\<close>, those with that \<open>group_key\<close>; \<open>dgElementsForRank\<close> is this
  population in the order of \<open>(doc_y, bbox.y, bbox.x, -importance)\<close>. For every selected
  element: if it is flagged as in the dominant group (\<open>DG = 1\<close>) and belongs to the
  population, its \<open>ord\<close> is its index in \<open>dgElementsForRank\<close>; if it is flagged but not
  in the population (flagged by its \<open>group_key\<close> while other elements carry
  \<open>in_dominant_group === true\<close>), its \<open>ord\<close> is \<open>-\<close>; if it is not flagged
  (\<open>DG = 0\<close>), its \<open>ord\<close> is \<open>-\<close>. An element with \<open>in_dominant_group === true\<close> is
  flagged and in the population, and so is one flagged by its \<open>group_key\<close> when no
  interactive element has \<open>in_dominant_group === true\<close>.
\<close>

theorem ord_is_rank_in_dominant_group:
  assumes "distinct (map el_id (elements snap))"
    and "el \<in> set (selectedElements selector snap)"
  shows "(inDg snap el = Some True \<and> el \<in> set (dominantGroupElements snap) \<longrightarrow>
            (\<exists>r<length (dgElementsForRank snap).
                dgElementsForRank snap ! r = el \<and> ordVal snap el = show_nat r)) \<and>
         (inDg snap el = Some True \<and> el \<notin> set (dominantGroupElements snap) \<longrightarrow>
            ordVal snap el = ''-'' \<and> dgFlag snap el = ''1'') \<and>
         (inDg snap el \<noteq> Some True \<longrightarrow> ordVal snap el = ''-'' \<and> dgFlag snap el = ''0'') \<and>
         (in_dominant_group el = Some True \<longrightarrow>
            inDg snap el = Some True \<and> el \<in> set (dominantGroupElements snap)) \<and>
         (in_dominant_group el = None \<and> truthy (dominant_group_key snap) \<and>
          group_key el = dominant_group_key snap \<and>
          (\<forall>e\<in>set (interactiveElements snap). in_dominant_group e \<noteq> Some True) \<longrightarrow>
            inDg snap el = Some True \<and> el \<in> set (dominantGroupElements snap)) \<and>
         mset (dgElementsForRank snap) = mset (dominantGroupElements snap) \<and>
         sorted (map rank_key (dgElementsForRank snap))"
proof -
  from assms(2) selected_interactive have inter: "el \<in> set (interactiveElements snap)" by blast
  with interactive_subset have el: "el \<in> set (elements snap)" by blast
  have inj: "inj_on el_id (set (elements snap))"
    using assms(1) by (simp add: distinct_map)
  have a: "\<exists>r<length (dgElementsForRank snap).
                dgElementsForRank snap ! r = el \<and> ordVal snap el = show_nat r"
    if dg: "inDg snap el = Some True" and mem: "el \<in> set (dominantGroupElements snap)"
  proof -
    from mem have "el \<in> set (dgElementsForRank snap)" by (simp add: set_dgElementsForRank)
    then obtain r where r: "r < length (dgElementsForRank snap)" "dgElementsForRank snap ! r = el"
      by (auto simp: in_set_conv_nth)
    from rank_lookup[OF distinct_dg_rank[OF assms(1)] r(1)] r(2)
    have "rankInGroupMap snap (el_id el) = Some r" by simp
    with dg have "ordVal snap el = show_nat r" by (simp add: ordVal_def)
    with r show ?thesis by blast
  qed
  have b: "ordVal snap el = ''-'' \<and> dgFlag snap el = ''1''"
    if dg: "inDg snap el = Some True" and mem: "el \<notin> set (dominantGroupElements snap)"
  proof -
    have "el_id el \<notin> el_id ` set (dgElementsForRank snap)"
    proof
      assume "el_id el \<in> el_id ` set (dgElementsForRank snap)"
      then obtain e where e: "e \<in> set (dominantGroupElements snap)" "el_id e = el_id el"
        by (auto simp: set_dgElementsForRank)
      with dominantGroupElements_subset interactive_subset have "e \<in> set (elements snap)" by blast
      with inj el e(2) have "e = el" by (auto dest: inj_onD)
      with e(1) mem show False by simp
    qed
    from rank_lookup_absent[OF this] dg show ?thesis by (simp add: ordVal_def dgFlag_def)
  qed
  have c: "ordVal snap el = ''-'' \<and> dgFlag snap el = ''0''" if "inDg snap el \<noteq> Some True"
    using that by (simp add: ordVal_def dgFlag_def)
  have d: "inDg snap el = Some True \<and> el \<in> set (dominantGroupElements snap)"
    if "in_dominant_group el = Some True"
  proof -
    from that inter
    have "el \<in> set (filter (\<lambda>el. in_dominant_group el = Some True) (interactiveElements snap))"
      by simp
    moreover from this
    have "filter (\<lambda>el. in_dominant_group el = Some True) (interactiveElements snap) \<noteq> []"
      by (metis empty_iff list.set(1))
    ultimately have "el \<in> set (dominantGroupElements snap)"
      by (simp add: dominantGroupElements_def Let_def)
    with that show ?thesis by (simp add: inDg_def)
  qed
  have e: "inDg snap el = Some True \<and> el \<in> set (dominantGroupElements snap)"
    if "in_dominant_group el = None \<and> truthy (dominant_group_key snap) \<and>
          group_key el = dominant_group_key snap \<and>
          (\<forall>e\<in>set (interactiveElements snap). in_dominant_group e \<noteq> Some True)"
  proof -
    from that have "filter (\<lambda>el. in_dominant_group el = Some True) (interactiveElements snap) = []"
      by (simp add: filter_empty_conv)
    with that inter have "el \<in> set (dominantGroupElements snap)"
      by (simp add: dominantGroupElements_def)
    with that show ?thesis by (simp add: inDg_def)
  qed
  from a b c d e mset_dgElementsForRank[of snap] dgElementsForRank_sorted[of snap]
  show ?thesis by blast
qed

text \<open>
  An instance, from the SDK's test of the local rank: three links of the dominant group
  at \<open>doc_y\<close> 300, 100 and 200 and a button outside it.
\<close>

theorem ord_is_rank_in_dominant_group_witness:
  "distinct (map el_id (elements ranked_snapshot)) \<and>
   third_link \<in> set (selectedElements default_selector ranked_snapshot) \<and>
   plain_button \<in> set (selectedElements default_selector ranked_snapshot) \<and>
   (\<exists>r<length (dgElementsForRank ranked_snapshot).
       dgElementsForRank ranked_snapshot ! r = third_link \<and>
       ordVal ranked_snapshot third_link = show_nat r) \<and>
   ordVal ranked_snapshot third_link = ''2'' \<and>
   ordVal ranked_snapshot plain_button = ''-'' \<and>
   format_lines (\<lambda>h. None) default_selector ranked_snapshot
     = [''4|button|Not in DG|95|0|0|-|0|'', ''3|link|Second|90|0|1|1|1|'',
        ''2|link|First|80|0|1|0|1|'', ''1|link|Third|70|0|2|2|1|'']"
proof -
  have d: "distinct (map el_id (elements ranked_snapshot))" by code_simp
  have s1: "third_link \<in> set (selectedElements default_selector ranked_snapshot)" by code_simp
  have s4: "plain_button \<in> set (selectedElements default_selector ranked_snapshot)" by code_simp
  have i1: "in_dominant_group third_link = Some True" by code_simp
  have i4: "inDg ranked_snapshot plain_button \<noteq> Some True" by code_simp
  have v: "ordVal ranked_snapshot third_link = ''2''" by code_simp
  have l: "format_lines (\<lambda>h. None) default_selector ranked_snapshot
     = [''4|button|Not in DG|95|0|0|-|0|'', ''3|link|Second|90|0|1|1|1|'',
        ''2|link|First|80|0|1|0|1|'', ''1|link|Third|70|0|2|2|1|'']" by code_simp
  from ord_is_rank_in_dominant_group[OF d s1] i1
  have a: "\<exists>r<length (dgElementsForRank ranked_snapshot).
       dgElementsForRank ranked_snapshot ! r = third_link \<and>
       ordVal ranked_snapshot third_link = show_nat r" by blast
  from ord_is_rank_in_dominant_group[OF d s4] i4
  have b: "ordVal ranked_snapshot plain_button = ''-''" by blast
  from d s1 s4 a b v l show ?thesis by blast
qed

text \<open>
  C6 as stated does not hold. In a snapshot with \<open>dominant_group_key = g\<close>, where element
  1 has \<open>in_dominant_group === true\<close> and element 2 has no such field but the group key
  \<open>g\<close>, element 2 is printed with \<open>DG = 1\<close> and \<open>ord = -\<close>. And in a snapshot with that
  key whose only element has the group key \<open>g\<close> and \<open>in_dominant_group === false\<close>, the
  element is the whole rank population, yet it is printed with \<open>DG = 0\<close> and \<open>ord = -\<close>.
\<close>

theorem ord_is_rank_in_dominant_group_counterexample:
  "format_lines (\<lambda>h. None) default_selector mixed_snapshot
     = [''1|button||50|0|0|0|1|'', ''2|button||50|0|0|-|1|''] \<and>
   selectedElements default_selector mixed_snapshot
     = [(button 1)\<lparr>in_dominant_group := Some True\<rparr>, (button 2)\<lparr>group_key := Some ''g''\<rparr>] \<and>
   inDg mixed_snapshot ((button 2)\<lparr>group_key := Some ''g''\<rparr>) = Some True \<and>
   dgFlag mixed_snapshot ((button 2)\<lparr>group_key := Some ''g''\<rparr>) = ''1'' \<and>
   ordVal mixed_snapshot ((button 2)\<lparr>group_key := Some ''g''\<rparr>) = ''-'' \<and>
   dgElementsForRank excluded_snapshot
     = [(button 1)\<lparr>in_dominant_group := Some False, group_key := Some ''g''\<rparr>] \<and>
   format_lines (\<lambda>h. None) default_selector excluded_snapshot = [''1|button||50|0|0|-|0|'']"
  by code_simp

subsection \<open>C7: errors of the refresh callback\<close>

text \<open>
  C7 (as amended). An error thrown by the snapshot-refresh callback never leaves
  \<open>evaluate\<close>: whenever \<open>evaluate\<close> ends with an error, it is an error that the
  predicate itself threw, which is not caught. At an attempt whose refresh throws \<open>e\<close>
  (before the timeout, with retries left), the loop goes on with \<open>lastOutcome\<close> set to
  the failing outcome \<open>failed to take snapshot: e\<close>, recorded as one more failed attempt.
\<close>

theorem refresh_errors_are_caught:
  "(case evaluate cfg env predicate c of (ex, res, s) \<Rightarrow>
      (case res of
         Inl e \<Rightarrow> ex = PredicateThrew \<and> predicate (ctx s) = Inl e
       | Inr outcome \<Rightarrow> ex \<noteq> PredicateThrew)) \<and>
   (\<forall>s e. clock env (now_calls s) - startTime s < timeout cfg \<and>
          0 < attempts s \<and> attempts s < maxRetries cfg \<and>
          snapshotFn env (snapshot_calls s) = Inl e \<longrightarrow>
      (\<exists>s'. evaluate_iter cfg env predicate s = Inl s' \<and>
            attempts s' = attempts s + 1 \<and>
            failed_attempts s' = failed_attempts s @ [the (lastOutcome s')] \<and>
            lastOutcome s' =
              Some \<lparr>passed = False,
                    reason = ''failed to take snapshot: '' @ error_text e,
                    details = [(''attempts'', JNum (attempts s)),
                               (''error'', JStr (error_text e))]\<rparr>))"
proof -
  obtain ex res s where r: "evaluate cfg env predicate c = (ex, res, s)"
    by (cases "evaluate cfg env predicate c") auto
  with evaluate_exit_ok[of cfg env predicate c]
  have "exit_ok cfg env predicate (ex, res, s)" by simp
  from exit_ok_error[OF this] r
  have first: "case evaluate cfg env predicate c of (ex, res, s) \<Rightarrow>
      (case res of
         Inl e \<Rightarrow> ex = PredicateThrew \<and> predicate (ctx s) = Inl e
       | Inr outcome \<Rightarrow> ex \<noteq> PredicateThrew)" by simp
  show ?thesis
    using first by (auto simp: evaluate_iter_def refresh_def Let_def)
qed

text \<open>
  An instance: every refresh throws \<open>Error: target closed\<close>; the run ends by retry
  exhaustion with the refresh failure as the last outcome.
\<close>

theorem refresh_errors_are_caught_witness:
  "(case evaluate default_config refresh_fails always_fails empty_context of (ex, res, s) \<Rightarrow>
      ex = ReturnMaxRetries \<and>
      res = Inr \<lparr>passed = False,
                 reason = ''max retries (3) exceeded: failed to take snapshot: Error: target closed'',
                 details = [(''attempts'', JNum 2), (''error'', JStr ''Error: target closed'')]\<rparr>) \<and>
   (\<exists>s'. evaluate_iter default_config refresh_fails always_fails
            ((initial_state refresh_fails empty_context)\<lparr>attempts := 1\<rparr>) = Inl s' \<and>
         attempts s' = 2 \<and>
         lastOutcome s' =
           Some \<lparr>passed = False, reason = ''failed to take snapshot: Error: target closed'',
                 details = [(''attempts'', JNum 1), (''error'', JStr ''Error: target closed'')]\<rparr>)"
proof -
  let ?s = "(initial_state refresh_fails empty_context)\<lparr>attempts := 1\<rparr>"
  have pre: "clock refresh_fails (now_calls ?s) - startTime ?s < timeout default_config \<and>
          0 < attempts ?s \<and> attempts ?s < maxRetries default_config \<and>
          snapshotFn refresh_fails (snapshot_calls ?s) = Inl (JsError ''Error: target closed'')"
    by (simp add: initial_state_def refresh_fails_def default_config_def
          EventuallyWrapper_config_def DEFAULT_TIMEOUT_def DEFAULT_MAX_RETRIES_def)
  have run: "evaluate default_config refresh_fails always_fails empty_context =
      (ReturnMaxRetries,
       Inr \<lparr>passed = False,
             reason = ''max retries (3) exceeded: failed to take snapshot: Error: target closed'',
             details = [(''attempts'', JNum 2), (''error'', JStr ''Error: target closed'')]\<rparr>,
       snd (snd (evaluate default_config refresh_fails always_fails empty_context)))"
    by code_simp
  from refresh_errors_are_caught[where cfg=default_config and env=refresh_fails and predicate=always_fails and c=empty_context] pre
  have "\<exists>s'. evaluate_iter default_config refresh_fails always_fails ?s = Inl s' \<and>
            attempts s' = attempts ?s + 1 \<and>
            lastOutcome s' =
              Some \<lparr>passed = False,
                    reason = ''failed to take snapshot: '' @ error_text (JsError ''Error: target closed''),
                    details = [(''attempts'', JNum (attempts ?s)),
                               (''error'', JStr (error_text (JsError ''Error: target closed'')))]\<rparr>"
    by blast
  then have step: "\<exists>s'. evaluate_iter default_config refresh_fails always_fails ?s = Inl s' \<and>
         attempts s' = 2 \<and>
         lastOutcome s' =
           Some \<lparr>passed = False, reason = ''failed to take snapshot: Error: target closed'',
                 details = [(''attempts'', JNum 1), (''error'', JStr ''Error: target closed'')]\<rparr>"
    by simp
  show ?thesis
    using step by (subst run) simp
qed

text \<open>
  C7 as stated does not hold for the predicate call: an error thrown by the predicate
  (here a \<open>SnapshotError\<close>) leaves \<open>evaluate\<close>, with no attempt counted.
\<close>

theorem refresh_errors_are_caught_counterexample:
  "case evaluate default_config frozen_clock always_throws empty_context of (ex, res, s) \<Rightarrow>
     ex = PredicateThrew \<and> res = Inl (JsError ''SnapshotError: stale'') \<and> attempts s = 0"
  by code_simp



subsection \<open>C8: termination\<close>

text \<open>
  C8 (as amended). When neither the predicate nor the refresh callback throws and
  \<open>timeout\<close>, \<open>poll\<close> and \<open>maxRetries\<close> are finite integers,
  \<open>evaluate\<close> returns an outcome after at most \<open>max(0, maxRetries) + 1\<close> passes through
  the loop body: every pass either returns or increments \<open>attempts\<close>, which stays
  between 0 and \<open>max(0, maxRetries)\<close>. Every sleep is entered only after the check that
  the elapsed time plus \<open>poll\<close> is below \<open>timeout\<close>. (No bound on the wall time follows:
  the time taken by the predicate and by the refresh callback is not limited.)
\<close>

theorem evaluate_terminates:
  assumes "\<forall>c. \<exists>outcome. predicate c = Inr outcome"
    and "\<forall>k. \<exists>r. snapshotFn env k = Inr r"
  shows "evaluate_fuel (nat (maxRetries cfg) + 1) cfg env predicate (initial_state env c)
           = Some (evaluate cfg env predicate c) \<and>
         (\<forall>s s'. evaluate_iter cfg env predicate s = Inl s' \<longrightarrow>
                  attempts s < maxRetries cfg \<and> attempts s' = attempts s + 1) \<and>
         (case evaluate cfg env predicate c of (ex, res, s) \<Rightarrow>
            (\<exists>outcome. res = Inr outcome) \<and>
            0 \<le> attempts s \<and> attempts s \<le> max 0 (maxRetries cfg) \<and>
            list_all (\<lambda>x. case x of None \<Rightarrow> False | Some e \<Rightarrow> e + poll cfg < timeout cfg)
              (sleeps s))"
proof -
  have fuel: "evaluate_fuel (nat (maxRetries cfg) + 1) cfg env predicate (initial_state env c)
           = Some (evaluate cfg env predicate c)"
    unfolding evaluate_def
    by (rule fuel_enough) (simp add: initial_state_def)
  have step: "\<forall>s s'. evaluate_iter cfg env predicate s = Inl s' \<longrightarrow>
                  attempts s < maxRetries cfg \<and> attempts s' = attempts s + 1"
    using evaluate_iter_continues by blast
  obtain ex res s where r: "evaluate cfg env predicate c = (ex, res, s)"
    by (cases "evaluate cfg env predicate c") auto
  from evaluate_exit_ok[of cfg env predicate c] r
  have "exit_ok cfg env predicate (ex, res, s)" by simp
  from exit_ok_error[OF this] assms(1)[rule_format, of "ctx s"]
  have "\<exists>outcome. res = Inr outcome"
    by (cases res) auto
  with evaluate_bounds[OF assms(2), of cfg predicate c] r fuel step
  show ?thesis by (simp add: guarded_sleeps_def)
qed

text \<open>
  An instance: with the default configuration four passes suffice; the run of
  \<open>urlContains('/cart')\<close> sleeps once, after reading an elapsed time of 200 ms.
\<close>

theorem evaluate_terminates_witness:
  "evaluate_fuel 4 default_config cart_after_refresh on_cart
       (initial_state cart_after_refresh empty_context)
     = Some (evaluate default_config cart_after_refresh on_cart empty_context) \<and>
   (case evaluate default_config cart_after_refresh on_cart empty_context of (ex, res, s) \<Rightarrow>
      (\<exists>outcome. res = Inr outcome) \<and> attempts s = 1 \<and> sleeps s = [Some 200])"
proof -
  have p: "\<forall>c. \<exists>outcome. on_cart c = Inr outcome"
    by (simp add: on_cart_def)
  have q: "\<forall>k. \<exists>r. snapshotFn cart_after_refresh k = Inr r"
    by (simp add: cart_after_refresh_def)
  have m: "nat (maxRetries default_config) + 1 = 4"
    by (simp add: default_config_def EventuallyWrapper_config_def DEFAULT_MAX_RETRIES_def)
  have a: "attempts (snd (snd (evaluate default_config cart_after_refresh on_cart empty_context))) = 1"
    by code_simp
  have b: "sleeps (snd (snd (evaluate default_config cart_after_refresh on_cart empty_context))) = [Some 200]"
    by code_simp
  note t = evaluate_terminates[OF p q, of default_config empty_context]
  from t have f: "evaluate_fuel (nat (maxRetries default_config) + 1) default_config
       cart_after_refresh on_cart (initial_state cart_after_refresh empty_context)
     = Some (evaluate default_config cart_after_refresh on_cart empty_context)"
    by (rule conjunct1)
  from t a b f[unfolded m]
  show ?thesis by (auto simp del: evaluate_fuel.simps split: prod.splits)
qed

text \<open>
  C8 as stated does not hold for the wall time: with \<open>timeout = 1000\<close> and \<open>poll = 100\<close>,
  a first attempt during which the clock advances by 5000 ms makes \<open>evaluate\<close> return
  \<open>timeout after 5000ms\<close>, later than \<open>timeout + poll = 1100\<close> ms after the start.
\<close>

theorem evaluate_terminates_counterexample:
  "case evaluate \<lparr>timeout = 1000, poll = 100, maxRetries = 3\<rparr> slow_first_attempt always_fails
          empty_context of (ex, res, s) \<Rightarrow>
     res = Inr \<lparr>passed = False, reason = ''timeout after 5000ms: nope'', details = []\<rparr> \<and>
     now_calls s = 4 \<and> elapsed_at slow_first_attempt 3 = 5000 \<and>
     \<not> (elapsed_at slow_first_attempt 3
          \<le> timeout \<lparr>timeout = 1000, poll = 100, maxRetries = 3\<rparr>
            + poll \<lparr>timeout = 1000, poll = 100, maxRetries = 3\<rparr>)"
  by code_simp

subsection \<open>C9: options of a call that hits the cache\<close>

text \<open>
  C9. While a snapshot is cached and its age is at most \<open>maxAgeMs\<close>, \<open>get(options)\<close>
  without \<open>forceRefresh\<close> returns that snapshot and leaves the object unchanged, without
  a backend call, whatever \<open>options\<close> is. The options of a call reach the backend once
  the cache has been invalidated or has become stale.
\<close>

theorem get_ignores_options_while_fresh:
  assumes "cached c = Some snap" and "now1 - cachedAt c \<le> maxAgeMs c"
  shows "(\<forall>options. get backend_snapshot now1 now2 c options False
            = \<lparr>returned = Inr (Some snap), cache_after = c, backend_calls = []\<rparr>) \<and>
         (\<forall>opts. backend_calls (get backend_snapshot now1 now2 (invalidate c) (Some opts) False)
            = [Some opts]) \<and>
         (\<forall>opts later. later - cachedAt c > maxAgeMs c \<longrightarrow>
            backend_calls (get backend_snapshot later now2 c (Some opts) False) = [Some opts])"
  using assms
  by (auto simp: get_def isStale_def invalidate_def Let_def split: sum.splits)

text \<open>An instance: a call asking for \<open>limit = 200\<close> at 2500 and again at 3500.\<close>

theorem get_ignores_options_while_fresh_witness:
  "get (\<lambda>opts. Inr other_snapshot) 2500 3600 warm_cache (Some larger_limit) False
     = \<lparr>returned = Inr (Some cart_snapshot), cache_after = warm_cache, backend_calls = []\<rparr> \<and>
   backend_calls (get (\<lambda>opts. Inr other_snapshot) 3500 3600 warm_cache (Some larger_limit) False)
     = [Some larger_limit]"
proof -
  have f: "cached warm_cache = Some cart_snapshot" "2500 - cachedAt warm_cache \<le> maxAgeMs warm_cache"
    "3500 - cachedAt warm_cache > maxAgeMs warm_cache"
    by (simp_all add: warm_cache_def)
  note t = get_ignores_options_while_fresh[OF f(1) f(2), of "\<lambda>opts. Inr other_snapshot" 3600]
  from t[THEN conjunct1, rule_format, of "Some larger_limit"]
       t[THEN conjunct2, THEN conjunct2, rule_format, OF f(3), of larger_limit]
  show ?thesis by simp
qed



subsection \<open>C10: allOf and anyOf\<close>

lemma allOf_loop_fst:
  "fst (allOf_loop ps c fr ad) = fr @ map (\<lambda>p. reason (p c)) (filter (\<lambda>p. \<not> passed (p c)) ps)"
  by (induction ps arbitrary: fr ad) (auto simp: Let_def)

lemma allOf_passed: "passed (allOf ps c) \<longleftrightarrow> (\<forall>p \<in> set ps. passed (p c))"
proof -
  have "passed (allOf ps c) \<longleftrightarrow> fst (allOf_loop ps c [] []) = []"
    by (simp add: allOf_def split: prod.splits)
  then show ?thesis by (simp add: allOf_loop_fst filter_empty_conv)
qed

lemma anyOf_loop_passed:
  "passed (anyOf_loop n ps c i rs ds) \<longleftrightarrow> (\<exists>p \<in> set ps. passed (p c))"
  by (induction ps arbitrary: i rs ds) (auto simp: Let_def)

lemma anyOf_loop_first:
  "passed (anyOf_loop n ps c i0 rs ds) \<Longrightarrow>
   \<exists>i<length ps. passed ((ps ! i) c) \<and> (\<forall>j<i. \<not> passed ((ps ! j) c)) \<and>
     details (anyOf_loop n ps c i0 rs ds) =
       [(''subPredicates'', JArr (map JObj (ds @ map (\<lambda>p. details (p c)) (take (Suc i) ps)))),
        (''matchedAtIndex'', JNum (int (i0 + i)))]"
proof (induction ps arbitrary: i0 rs ds)
  case Nil
  then show ?case by simp
next
  case (Cons p ps)
  show ?case
  proof (cases "passed (p c)")
    case True
    then show ?thesis by (intro exI[of _ 0]) (simp add: Let_def)
  next
    case False
    with Cons.prems have "passed (anyOf_loop n ps c (i0 + 1) (rs @ [reason (p c)]) (ds @ [details (p c)]))"
      by (simp add: Let_def)
    from Cons.IH[OF this] obtain i where i: "i < length ps" "passed ((ps ! i) c)"
      "\<forall>j<i. \<not> passed ((ps ! j) c)"
      "details (anyOf_loop n ps c (i0 + 1) (rs @ [reason (p c)]) (ds @ [details (p c)])) =
       [(''subPredicates'', JArr (map JObj ((ds @ [details (p c)]) @ map (\<lambda>p. details (p c)) (take (Suc i) ps)))),
        (''matchedAtIndex'', JNum (int (i0 + 1 + i)))]"
      by blast
    have "\<forall>j<Suc i. \<not> passed (((p # ps) ! j) c)"
      using False i(3) by (auto simp: less_Suc_eq_0_disj)
    with i False show ?thesis
      by (intro exI[of _ "Suc i"]) (simp add: Let_def)
  qed
qed

text \<open>
  C10. \<open>allOf(...ps)(c)\<close> passes exactly when every predicate of \<open>ps\<close> passes on \<open>c\<close>,
  so \<open>allOf()\<close> always passes; \<open>anyOf(...ps)(c)\<close> passes exactly when some predicate of
  \<open>ps\<close> passes on \<open>c\<close>, so \<open>anyOf()\<close> always fails; and a passing \<open>anyOf\<close> returns at
  the first passing sub-predicate: \<open>matchedAtIndex\<close> is its index, no earlier one
  passes, and \<open>subPredicates\<close> holds the details of the predicates up to it only.
\<close>

theorem allOf_anyOf_passed:
  "(passed (allOf ps c) \<longleftrightarrow> (\<forall>p\<in>set ps. passed (p c))) \<and>
   passed (allOf [] c) \<and>
   (passed (anyOf ps c) \<longleftrightarrow> (\<exists>p\<in>set ps. passed (p c))) \<and>
   \<not> passed (anyOf [] c) \<and>
   (passed (anyOf ps c) \<longrightarrow>
      (\<exists>i<length ps. passed ((ps ! i) c) \<and> (\<forall>j<i. \<not> passed ((ps ! j) c)) \<and>
         details (anyOf ps c) =
           [(''subPredicates'', JArr (map (\<lambda>p. JObj (details (p c))) (take (Suc i) ps))),
            (''matchedAtIndex'', JNum (int i))]))"
proof -
  have "passed (anyOf ps c) \<longrightarrow>
      (\<exists>i<length ps. passed ((ps ! i) c) \<and> (\<forall>j<i. \<not> passed ((ps ! j) c)) \<and>
         details (anyOf ps c) =
           [(''subPredicates'', JArr (map (\<lambda>p. JObj (details (p c))) (take (Suc i) ps))),
            (''matchedAtIndex'', JNum (int i))])"
    using anyOf_loop_first[of "length ps" ps c 0 "[]" "[]"]
    by (simp add: anyOf_def comp_def)
  then show ?thesis
    by (simp add: allOf_passed anyOf_loop_passed anyOf_def)
qed

text \<open>An instance: on \<open>http://shop/cart\<close>, \<open>/checkout\<close> is absent and \<open>/cart\<close> present.\<close>

theorem allOf_anyOf_passed_witness:
  "\<not> passed (allOf [urlContains ''/checkout'', urlContains ''/cart''] shop_context) \<and>
   passed (anyOf [urlContains ''/checkout'', urlContains ''/cart''] shop_context) \<and>
   \<not> passed (urlContains ''/checkout'' shop_context) \<and>
   passed (urlContains ''/cart'' shop_context)"
proof -
  have a: "\<not> passed (urlContains ''/checkout'' shop_context)" by code_simp
  have b: "passed (urlContains ''/cart'' shop_context)" by code_simp
  from allOf_anyOf_passed[of "[urlContains ''/checkout'', urlContains ''/cart'']" shop_context] a b
  show ?thesis by simp
qed

end
